theory Spec2Isabelle
  imports Complex_Main "HOL-Library.AList"
begin

section \<open>Price validation: rank tables, key parser, detector and repair loop\<close>

text \<open>
  The repository holds two revisions of one program, \<^verbatim>\<open>main.py\<close> and
  \<^verbatim>\<open>modified_version.py\<close>. The rank tables, \<^verbatim>\<open>PriceElement\<close>,
  \<^verbatim>\<open>parse_price_key\<close>, \<^verbatim>\<open>build_price_items\<close> and
  \<^verbatim>\<open>detect_inconsistencies\<close> are the same in both and are modelled once. The repair
  loop \<^verbatim>\<open>fix_products_inplace\<close> differs: the definitions whose names end in \<open>_main\<close>
  follow \<^verbatim>\<open>main.py\<close>, the ones without the suffix follow \<^verbatim>\<open>modified_version.py\<close>.
  \<^verbatim>\<open>main.py\<close> has the whole loop in one function; its model is cut into the same pieces
  as the helper functions of \<^verbatim>\<open>modified_version.py\<close>.

  Modelling decisions:
  \<^item> a Python exception is a value \<open>Inl e\<close> of the sum type \<open>error + 'a\<close>; only the kind of
    the exception is kept, not its message;
  \<^item> a function that mutates the price table returns an outcome together with the table
    it leaves behind, also when it raises: the caller of the Python function sees the
    writes made before the exception;
  \<^item> a \<^verbatim>\<open>str\<close> is a \<open>string\<close> of ASCII characters;
  \<^item> the price table \<^verbatim>\<open>Dict[str, int]\<close> is an association list with distinct keys in
    insertion order; \<^verbatim>\<open>prices[k] = v\<close> on a present key keeps its position;
  \<^item> a Python \<^verbatim>\<open>float\<close> is an exact rational number (\<open>rat\<close>): the rounding error of
    IEEE doubles, infinities and NaN are outside the model. \<^verbatim>\<open>int(round(x))\<close> rounds to
    the nearest integer, ties to the even one. Where the exact product is a tie the
    program may round the other way: \<open>950 * 1.07\<close> is \<open>1016.5\<close> in the rationals and a
    little more in doubles, so the model gives 1016 where the program gives 1017. The
    concrete tables evaluated below are chosen so that every product that is rounded is
    either exact in binary or far from a tie: doubles give the same integers there. The
    general statements about rounded prices (section on the schedules) are statements
    about the exact arithmetic.
\<close>

subsection \<open>Errors and the sequencing of fallible steps\<close>

datatype error = KeyError | ValueError | TypeError | ZeroDivisionError | UnboundLocalError

definition bind :: "error + 'a \<Rightarrow> ('a \<Rightarrow> error + 'b) \<Rightarrow> error + 'b" where
  "bind m f = (case m of Inl e \<Rightarrow> Inl e | Inr x \<Rightarrow> f x)"

text \<open>The congruence rule lets the recursive definitions below see that a recursive
  call under \<open>bind\<close> happens only when the first step has returned.\<close>

lemma bind_cong [fundef_cong]:
  "m = m' \<Longrightarrow> (\<And>x. m' = Inr x \<Longrightarrow> f x = f' x) \<Longrightarrow> bind m f = bind m' f'"
  by (cases m') (simp_all add: bind_def)

subsection \<open>Rank tables\<close>

definition product_rank :: "(string \<times> int) list" where
  "product_rank = [(''mtpl'', 1), (''limited_casco'', 2), (''casco'', 3)]"

definition variants_rank :: "(string \<times> int) list" where
  "variants_rank = [(''compact'', 1), (''basic'', 1), (''comfort'', 2), (''premium'', 3)]"

definition deductables_rank :: "(int \<times> int) list" where
  "deductables_rank = [(100, 1), (200, 2), (500, 3)]"

definition core_product :: "string set" where
  "core_product = {''mtpl''}"

definition get_product_rank :: "string \<Rightarrow> error + int" where
  "get_product_rank p =
     (case map_of product_rank p of None \<Rightarrow> Inl KeyError | Some r \<Rightarrow> Inr r)"

text \<open>The variant and the deductible of an element are optional; \<^verbatim>\<open>None\<close> is not a key
  of either table, so the lookup raises \<^verbatim>\<open>KeyError\<close>.\<close>

definition get_variant_rank :: "string option \<Rightarrow> error + int" where
  "get_variant_rank v =
     (case v of None \<Rightarrow> Inl KeyError
      | Some s \<Rightarrow> (case map_of variants_rank s of None \<Rightarrow> Inl KeyError | Some r \<Rightarrow> Inr r))"

definition get_deductible_rank :: "int option \<Rightarrow> error + int" where
  "get_deductible_rank d =
     (case d of None \<Rightarrow> Inl KeyError
      | Some n \<Rightarrow> (case map_of deductables_rank n of None \<Rightarrow> Inl KeyError | Some r \<Rightarrow> Inr r))"

definition is_core_product :: "string \<Rightarrow> bool" where
  "is_core_product p \<longleftrightarrow> p \<in> core_product"

subsection \<open>Price elements and the price table\<close>

record PriceElement =
  key :: string
  product :: string
  variant :: "string option"
  deductible :: "int option"

type_synonym prices = "(string \<times> int) list"

definition dict_get :: "prices \<Rightarrow> string \<Rightarrow> error + int" where
  "dict_get ps k = (case map_of ps k of None \<Rightarrow> Inl KeyError | Some v \<Rightarrow> Inr v)"

definition dict_set :: "prices \<Rightarrow> string \<Rightarrow> int \<Rightarrow> prices" where
  "dict_set ps k v = AList.update k v ps"

subsection \<open>Strings: \<^verbatim>\<open>split\<close>, \<^verbatim>\<open>join\<close>, \<^verbatim>\<open>int\<close> and \<^verbatim>\<open>str\<close>\<close>

fun split_on :: "char \<Rightarrow> string \<Rightarrow> string list" where
  "split_on d [] = [[]]"
| "split_on d (c # cs) =
     (if c = d then [] # split_on d cs
      else (case split_on d cs of [] \<Rightarrow> [[c]] | p # ps \<Rightarrow> (c # p) # ps))"

fun join :: "string \<Rightarrow> string list \<Rightarrow> string" where
  "join sep [] = []"
| "join sep [x] = x"
| "join sep (x # y # ys) = x @ sep @ join sep (y # ys)"

text \<open>\<^verbatim>\<open>int(s)\<close> on a string: surrounding whitespace is stripped, one sign is allowed,
  then decimal digits, with single underscores allowed between digits; leading zeros
  are accepted. Anything else raises \<^verbatim>\<open>ValueError\<close>. The strings of the model are
  taken as strings of ASCII characters; on such a string the whitespace that \<^verbatim>\<open>int\<close> strips is
  tab, line feed, vertical tab, form feed, carriage return and space.\<close>

definition is_space :: "char \<Rightarrow> bool" where
  "is_space c \<longleftrightarrow> (of_char c :: nat) \<in> {9, 10, 11, 12, 13, 32}"

definition is_digit :: "char \<Rightarrow> bool" where
  "is_digit c \<longleftrightarrow> 48 \<le> (of_char c :: nat) \<and> (of_char c :: nat) \<le> 57"

definition digit_val :: "char \<Rightarrow> nat" where
  "digit_val c = of_char c - 48"

definition strip :: "string \<Rightarrow> string" where
  "strip s = rev (dropWhile is_space (rev (dropWhile is_space s)))"

text \<open>The digits of the body, most significant first, accumulated into a number; \<open>prev\<close>
  says whether the previous character was a digit (an underscore must stand between two
  digits).\<close>

fun int_body :: "bool \<Rightarrow> nat \<Rightarrow> string \<Rightarrow> nat option" where
  "int_body prev acc [] = (if prev then Some acc else None)"
| "int_body prev acc (c # cs) =
     (if is_digit c then int_body True (10 * acc + digit_val c) cs
      else if c = CHR ''_'' \<and> prev \<and> cs \<noteq> [] then int_body False acc cs
      else None)"

definition py_int :: "string \<Rightarrow> error + int" where
  "py_int s =
     (case strip s of
        [] \<Rightarrow> Inl ValueError
      | c # cs \<Rightarrow>
          if c = CHR ''-'' then
            (case int_body False 0 cs of None \<Rightarrow> Inl ValueError | Some n \<Rightarrow> Inr (- int n))
          else if c = CHR ''+'' then
            (case int_body False 0 cs of None \<Rightarrow> Inl ValueError | Some n \<Rightarrow> Inr (int n))
          else
            (case int_body False 0 (c # cs) of None \<Rightarrow> Inl ValueError | Some n \<Rightarrow> Inr (int n)))"

text \<open>\<^verbatim>\<open>str(n)\<close>, the decimal rendering used by the f-strings of the report.\<close>

function str_nat :: "nat \<Rightarrow> string" where
  "str_nat n = (if n < 10 then [''0123456789'' ! n] else str_nat (n div 10) @ [''0123456789'' ! (n mod 10)])"
  by pat_completeness auto
termination
  by (relation "measure id") auto

declare str_nat.simps [simp del]

definition str_int :: "int \<Rightarrow> string" where
  "str_int i = (if i < 0 then CHR ''-'' # str_nat (nat (- i)) else str_nat (nat i))"

subsection \<open>The key parser\<close>

definition parse_price_key :: "string \<Rightarrow> error + PriceElement" where
  "parse_price_key input_key =
     (let parts = split_on (CHR ''_'') input_key in
      if take 2 parts = [''limited'', ''casco''] \<and> length parts = 4 then
        bind (py_int (parts ! 3)) (\<lambda>d.
          Inr \<lparr>key = input_key, product = ''limited_casco'',
               variant = Some (parts ! 2), deductible = Some d\<rparr>)
      else if length parts = 3 then
        bind (py_int (parts ! 2)) (\<lambda>d.
          Inr \<lparr>key = input_key, product = parts ! 0,
               variant = Some (parts ! 1), deductible = Some d\<rparr>)
      else Inl ValueError)"

text \<open>One turn of the loop of \<^verbatim>\<open>build_price_items\<close>: the element built for one key.\<close>

definition build_item :: "string \<Rightarrow> error + PriceElement" where
  "build_item input_key =
     (if input_key \<in> core_product then
        Inr \<lparr>key = input_key, product = input_key, variant = None, deductible = None\<rparr>
      else parse_price_key input_key)"

fun build_loop :: "string list \<Rightarrow> PriceElement list \<Rightarrow> error + PriceElement list" where
  "build_loop [] items = Inr items"
| "build_loop (k # ks) items = bind (build_item k) (\<lambda>e. build_loop ks (items @ [e]))"

definition build_price_items :: "prices \<Rightarrow> error + PriceElement list" where
  "build_price_items ps = build_loop (map fst ps) []"

subsection \<open>The detector\<close>

text \<open>A report line: \<^verbatim>\<open>"<RULE>: '<key>' (<price>) should be cheaper than '<key>' (<price>)."\<close>\<close>

definition violation_line :: "string \<Rightarrow> string \<Rightarrow> int \<Rightarrow> string \<Rightarrow> int \<Rightarrow> string" where
  "violation_line rule k1 p1 k2 p2 =
     rule @ '': '' @ [CHR 0x27] @ k1 @ [CHR 0x27] @ '' ('' @ str_int p1 @ '') should be cheaper than ''
       @ [CHR 0x27] @ k2 @ [CHR 0x27] @ '' ('' @ str_int p2 @ '').''"

text \<open>The body of the two nested loops of \<^verbatim>\<open>detect_inconsistencies\<close> for one pair
  \<open>(a, b)\<close>: the lines it appends to the report, in order. The four rule families are
  four independent \<^verbatim>\<open>if\<close> statements.\<close>

definition detect_product_order :: "PriceElement \<Rightarrow> PriceElement \<Rightarrow> int \<Rightarrow> int \<Rightarrow> int \<Rightarrow> int \<Rightarrow> string list" where
  "detect_product_order a b price_a price_b pa pb =
     (if pa \<noteq> pb then
        (let (lower, higher) = (if pa < pb then (a, b) else (b, a));
             (lower_price, higher_price) = (if pa < pb then (price_a, price_b) else (price_b, price_a))
         in if product lower \<in> core_product \<and> lower_price \<ge> higher_price then
              [violation_line ''PRODUCT ORDER'' (key lower) lower_price (key higher) higher_price]
            else [])
      else [])"

definition detect_cross_product :: "PriceElement \<Rightarrow> PriceElement \<Rightarrow> int \<Rightarrow> int \<Rightarrow> error + string list" where
  "detect_cross_product a b price_a price_b =
     (if product a \<noteq> product b \<and> product a \<notin> core_product \<and> product b \<notin> core_product
         \<and> variant a = variant b \<and> deductible a = deductible b then
        bind (get_product_rank (product a)) (\<lambda>pa.
        bind (get_product_rank (product b)) (\<lambda>pb.
          let (lower_p, higher_p) = (if pa < pb then (a, b) else (b, a));
              (lower_price, higher_price) = (if pa < pb then (price_a, price_b) else (price_b, price_a))
          in if lower_price \<ge> higher_price then
               Inr [violation_line ''PRODUCT ORDER (same variant+deductible)''
                      (key lower_p) lower_price (key higher_p) higher_price]
             else Inr []))
      else Inr [])"

definition detect_variant_order :: "PriceElement \<Rightarrow> PriceElement \<Rightarrow> int \<Rightarrow> int \<Rightarrow> error + string list" where
  "detect_variant_order a b price_a price_b =
     (if product a = product b \<and> product a \<notin> core_product \<and> product b \<notin> core_product
         \<and> deductible a = deductible b then
        bind (get_variant_rank (variant a)) (\<lambda>va.
        bind (get_variant_rank (variant b)) (\<lambda>vb.
          if va \<noteq> vb then
            (let (lower_v, higher_v) = (if va < vb then (a, b) else (b, a));
                 (lower_price, higher_price) = (if va < vb then (price_a, price_b) else (price_b, price_a))
             in if lower_price \<ge> higher_price then
                  Inr [violation_line ''VARIANT ORDER'' (key lower_v) lower_price (key higher_v) higher_price]
                else Inr [])
          else Inr []))
      else Inr [])"

definition detect_deductible_order :: "PriceElement \<Rightarrow> PriceElement \<Rightarrow> int \<Rightarrow> int \<Rightarrow> error + string list" where
  "detect_deductible_order a b price_a price_b =
     (if product a = product b \<and> product a \<notin> core_product \<and> product b \<notin> core_product
         \<and> variant a = variant b then
        bind (get_deductible_rank (deductible a)) (\<lambda>da.
        bind (get_deductible_rank (deductible b)) (\<lambda>db.
          if da \<noteq> db then
            (let (lower_d, higher_d) = (if da < db then (a, b) else (b, a));
                 (lower_price, higher_price) = (if da < db then (price_a, price_b) else (price_b, price_a))
             in if higher_price \<ge> lower_price then
                  Inr [violation_line ''DEDUCTIBLE ORDER'' (key higher_d) higher_price (key lower_d) lower_price]
                else Inr [])
          else Inr []))
      else Inr [])"

definition detect_pair :: "prices \<Rightarrow> PriceElement \<Rightarrow> PriceElement \<Rightarrow> error + string list" where
  "detect_pair ps a b =
     bind (dict_get ps (key a)) (\<lambda>price_a.
     bind (dict_get ps (key b)) (\<lambda>price_b.
     bind (get_product_rank (product a)) (\<lambda>pa.
     bind (get_product_rank (product b)) (\<lambda>pb.
     bind (detect_cross_product a b price_a price_b) (\<lambda>r2.
     bind (detect_variant_order a b price_a price_b) (\<lambda>r3.
     bind (detect_deductible_order a b price_a price_b) (\<lambda>r4.
       Inr (detect_product_order a b price_a price_b pa pb @ r2 @ r3 @ r4))))))))"

text \<open>The inner loop (\<open>j\<close> from \<open>i + 1\<close>) and the outer loop (\<open>i\<close>) over the item list; the
  report is threaded through as the list of lines so far.\<close>

fun detect_inner :: "prices \<Rightarrow> PriceElement \<Rightarrow> PriceElement list \<Rightarrow> string list \<Rightarrow> error + string list" where
  "detect_inner ps a [] report = Inr report"
| "detect_inner ps a (b # bs) report =
     bind (detect_pair ps a b) (\<lambda>ls. detect_inner ps a bs (report @ ls))"

fun detect_outer :: "prices \<Rightarrow> PriceElement list \<Rightarrow> string list \<Rightarrow> error + string list" where
  "detect_outer ps [] report = Inr report"
| "detect_outer ps (a # rest) report =
     bind (detect_inner ps a rest report) (\<lambda>report'. detect_outer ps rest report')"

definition detect_inconsistencies :: "PriceElement list \<Rightarrow> prices \<Rightarrow> error + string" where
  "detect_inconsistencies items ps =
     bind (detect_outer ps items []) (\<lambda>report. Inr (join [CHR 0x0A] report))"

subsection \<open>The detector as a computation on the store\<close>

text \<open>The two arguments of \<^verbatim>\<open>detect_inconsistencies\<close> are mutable objects: the list of
  elements and the price table. To state what the call does to them, the detector is
  written once more as a computation on the store that holds both, with the loops over
  the indices \<open>i\<close> and \<open>j\<close> as in the source. Every step returns its outcome and the
  store it leaves; the body has no assignment to an element, to the list or to the
  table, so the step for a pair hands the store on as it got it, also when it raises.\<close>

type_synonym store = "PriceElement list \<times> prices"

definition detect_pair_st :: "nat \<Rightarrow> nat \<Rightarrow> string list \<Rightarrow> store \<Rightarrow> (error + string list) \<times> store" where
  "detect_pair_st i j report s =
     (case s of (items, ps) \<Rightarrow>
        (bind (detect_pair ps (items ! i) (items ! j)) (\<lambda>ls. Inr (report @ ls)), s))"

fun detect_inner_st :: "nat \<Rightarrow> nat list \<Rightarrow> string list \<Rightarrow> store \<Rightarrow> (error + string list) \<times> store" where
  "detect_inner_st i [] report s = (Inr report, s)"
| "detect_inner_st i (j # js) report s =
     (case detect_pair_st i j report s of
        (Inl e, s') \<Rightarrow> (Inl e, s')
      | (Inr report', s') \<Rightarrow> detect_inner_st i js report' s')"

fun detect_outer_st :: "nat list \<Rightarrow> nat \<Rightarrow> string list \<Rightarrow> store \<Rightarrow> (error + string list) \<times> store" where
  "detect_outer_st [] n report s = (Inr report, s)"
| "detect_outer_st (i # is) n report s =
     (case detect_inner_st i [i + 1..<n] report s of
        (Inl e, s') \<Rightarrow> (Inl e, s')
      | (Inr report', s') \<Rightarrow> detect_outer_st is n report' s')"

definition detect_inconsistencies_st :: "store \<Rightarrow> (error + string) \<times> store" where
  "detect_inconsistencies_st s =
     (let n = length (fst s) in
      case detect_outer_st [0..<n] n [] s of
        (Inl e, s') \<Rightarrow> (Inl e, s')
      | (Inr report, s') \<Rightarrow> (Inr (join [CHR 0x0A] report), s'))"

subsection \<open>Arithmetic of the repair loop\<close>

text \<open>\<^verbatim>\<open>int(round(x))\<close>: the nearest integer, a tie going to the even neighbour.\<close>

definition py_round :: "rat \<Rightarrow> int" where
  "py_round x =
     (let f = \<lfloor>x\<rfloor>; r = x - of_int f
      in if r < 1 / 2 then f else if 1 / 2 < r then f + 1 else if even f then f else f + 1)"

text \<open>\<^verbatim>\<open>int(round(base * (0.9 ** (r - 1))))\<close> and \<^verbatim>\<open>int(round(base * (1.07 ** (r - 1))))\<close>;
  the ranks of the tables are at least 1, so the exponent is a natural number.\<close>

definition deductible_price :: "int \<Rightarrow> int \<Rightarrow> int" where
  "deductible_price base r = py_round (of_int base * (9 / 10) ^ nat (r - 1))"

definition variant_price :: "int \<Rightarrow> int \<Rightarrow> int" where
  "variant_price base r = py_round (of_int base * (107 / 100) ^ nat (r - 1))"

text \<open>\<^verbatim>\<open>None if is_core else get_..._rank(...)\<close>\<close>

definition rank_unless_core :: "bool \<Rightarrow> error + int \<Rightarrow> error + int option" where
  "rank_unless_core is_core r = (if is_core then Inr None else bind r (\<lambda>x. Inr (Some x)))"

text \<open>\<^verbatim>\<open>da < db\<close> on optional ranks: comparing with \<^verbatim>\<open>None\<close> raises \<^verbatim>\<open>TypeError\<close>.\<close>

definition opt_less :: "int option \<Rightarrow> int option \<Rightarrow> error + bool" where
  "opt_less x y =
     (case x of None \<Rightarrow> Inl TypeError
      | Some i \<Rightarrow> (case y of None \<Rightarrow> Inl TypeError | Some j \<Rightarrow> Inr (i < j)))"

subsection \<open>Outcomes of code that writes the price table\<close>

text \<open>The outcome of a piece of the repair loop: the value it computes or the exception
  it raises, and the price table as it stands at that moment.\<close>

type_synonym 'a outcome = "(error + 'a) \<times> prices"

text \<open>\<open>eval_in ps m f\<close>: evaluate the fallible expression \<open>m\<close>, which writes nothing, while
  the table is \<open>ps\<close>, and go on with its value.\<close>

definition eval_in :: "prices \<Rightarrow> error + 'a \<Rightarrow> ('a \<Rightarrow> 'b outcome) \<Rightarrow> 'b outcome" where
  "eval_in ps m f = (case m of Inl e \<Rightarrow> (Inl e, ps) | Inr x \<Rightarrow> f x)"

text \<open>\<open>then_do r f\<close>: after a piece with outcome \<open>r\<close>, go on with its value and the table
  it left, unless it raised.\<close>

definition then_do :: "'a outcome \<Rightarrow> ('a \<Rightarrow> prices \<Rightarrow> 'b outcome) \<Rightarrow> 'b outcome" where
  "then_do r f = (case r of (Inl e, ps) \<Rightarrow> (Inl e, ps) | (Inr x, ps) \<Rightarrow> f x ps)"

lemma eval_in_cong [fundef_cong]:
  "m = m' \<Longrightarrow> ps = ps' \<Longrightarrow> (\<And>x. m' = Inr x \<Longrightarrow> f x = f' x) \<Longrightarrow> eval_in ps m f = eval_in ps' m' f'"
  by (cases m') (simp_all add: eval_in_def)

lemma then_do_cong [fundef_cong]:
  "r = r' \<Longrightarrow> (\<And>x ps. r' = (Inr x, ps) \<Longrightarrow> f x ps = f' x ps) \<Longrightarrow> then_do r f = then_do r' f'"
  by (cases r'; cases "fst r'") (simp_all add: then_do_def)

subsection \<open>Pair scans\<close>

text \<open>The two nested loops \<^verbatim>\<open>for i in range(n): for j in range(i + 1, n)\<close> of the repair
  loop. The body \<open>step a b\<close> acts on the local variables \<open>vars\<close> and on the table; an
  exception leaves both loops.\<close>

fun inner_loop ::
  "('a \<Rightarrow> 'a \<Rightarrow> 'v \<Rightarrow> prices \<Rightarrow> 'v outcome) \<Rightarrow> 'a \<Rightarrow> 'a list \<Rightarrow> 'v \<Rightarrow> prices \<Rightarrow> 'v outcome" where
  "inner_loop step a [] vars ps = (Inr vars, ps)"
| "inner_loop step a (b # bs) vars ps = then_do (step a b vars ps) (inner_loop step a bs)"

fun outer_loop ::
  "('a \<Rightarrow> 'a \<Rightarrow> 'v \<Rightarrow> prices \<Rightarrow> 'v outcome) \<Rightarrow> 'a list \<Rightarrow> 'v \<Rightarrow> prices \<Rightarrow> 'v outcome" where
  "outer_loop step [] vars ps = (Inr vars, ps)"
| "outer_loop step (a # rest) vars ps =
     then_do (inner_loop step a rest vars ps) (outer_loop step rest)"

subsection \<open>Helpers of \<^verbatim>\<open>modified_version.py\<close>\<close>

definition group_items :: "PriceElement list \<Rightarrow> (PriceElement \<Rightarrow> bool) \<Rightarrow> PriceElement list" where
  "group_items items predicate = filter predicate items"

text \<open>The two reading loops. The predicate may raise (a rank lookup).\<close>

fun max_price_loop ::
  "PriceElement list \<Rightarrow> prices \<Rightarrow> (PriceElement \<Rightarrow> error + bool) \<Rightarrow> int option \<Rightarrow> error + int option" where
  "max_price_loop [] ps predicate mx = Inr mx"
| "max_price_loop (it # its) ps predicate mx =
     bind (predicate it) (\<lambda>holds.
       if holds then
         bind (dict_get ps (key it)) (\<lambda>p.
           max_price_loop its ps predicate (Some (case mx of None \<Rightarrow> p | Some m \<Rightarrow> max m p)))
       else max_price_loop its ps predicate mx)"

definition max_price_in_group ::
  "PriceElement list \<Rightarrow> prices \<Rightarrow> (PriceElement \<Rightarrow> error + bool) \<Rightarrow> error + int option" where
  "max_price_in_group items ps predicate = max_price_loop items ps predicate None"

fun min_price_loop ::
  "PriceElement list \<Rightarrow> prices \<Rightarrow> (PriceElement \<Rightarrow> bool) \<Rightarrow> int option \<Rightarrow> error + int option" where
  "min_price_loop [] ps predicate mn = Inr mn"
| "min_price_loop (it # its) ps predicate mn =
     (if predicate it then
        bind (dict_get ps (key it)) (\<lambda>p.
          min_price_loop its ps predicate (Some (case mn of None \<Rightarrow> p | Some m \<Rightarrow> min m p)))
      else min_price_loop its ps predicate mn)"

definition min_price_in_group ::
  "PriceElement list \<Rightarrow> prices \<Rightarrow> (PriceElement \<Rightarrow> bool) \<Rightarrow> error + int option" where
  "min_price_in_group items ps predicate = min_price_loop items ps predicate None"

text \<open>The three writing loops. Each carries the flag \<open>changed\<close>; the functions of
  \<^verbatim>\<open>modified_version.py\<close> start it at \<open>False\<close> and return it.\<close>

fun scale_product_loop ::
  "PriceElement list \<Rightarrow> prices \<Rightarrow> string \<Rightarrow> rat \<Rightarrow> bool \<Rightarrow> bool outcome" where
  "scale_product_loop [] ps p factor changed = (Inr changed, ps)"
| "scale_product_loop (it # its) ps p factor changed =
     (if product it = p then
        eval_in ps (dict_get ps (key it)) (\<lambda>cur.
          let new_val = py_round (of_int cur * factor) in
          if new_val \<noteq> cur then scale_product_loop its (dict_set ps (key it) new_val) p factor True
          else scale_product_loop its ps p factor changed)
      else scale_product_loop its ps p factor changed)"

definition scale_product :: "PriceElement list \<Rightarrow> prices \<Rightarrow> string \<Rightarrow> rat \<Rightarrow> bool outcome" where
  "scale_product items ps p factor = scale_product_loop items ps p factor False"

fun deductible_schedule_loop ::
  "PriceElement list \<Rightarrow> prices \<Rightarrow> int \<Rightarrow> bool \<Rightarrow> bool outcome" where
  "deductible_schedule_loop [] ps base changed = (Inr changed, ps)"
| "deductible_schedule_loop (it # its) ps base changed =
     eval_in ps (get_deductible_rank (deductible it)) (\<lambda>r.
       let new_price = deductible_price base r in
       eval_in ps (dict_get ps (key it)) (\<lambda>cur.
         if new_price \<noteq> cur then deductible_schedule_loop its (dict_set ps (key it) new_price) base True
         else deductible_schedule_loop its ps base changed))"

definition apply_deductible_schedule :: "PriceElement list \<Rightarrow> prices \<Rightarrow> int \<Rightarrow> bool outcome" where
  "apply_deductible_schedule grp ps base = deductible_schedule_loop grp ps base False"

fun variant_schedule_loop ::
  "PriceElement list \<Rightarrow> prices \<Rightarrow> int \<Rightarrow> bool \<Rightarrow> bool outcome" where
  "variant_schedule_loop [] ps base changed = (Inr changed, ps)"
| "variant_schedule_loop (it # its) ps base changed =
     eval_in ps (get_variant_rank (variant it)) (\<lambda>r.
       let new_price = variant_price base r in
       eval_in ps (dict_get ps (key it)) (\<lambda>cur.
         if new_price \<noteq> cur then variant_schedule_loop its (dict_set ps (key it) new_price) base True
         else variant_schedule_loop its ps base changed))"

definition apply_variant_schedule :: "PriceElement list \<Rightarrow> prices \<Rightarrow> int \<Rightarrow> bool outcome" where
  "apply_variant_schedule grp ps base = variant_schedule_loop grp ps base False"

text \<open>\<^verbatim>\<open>changed |= f(...)\<close>\<close>

definition or_changed :: "bool \<Rightarrow> bool outcome \<Rightarrow> bool outcome" where
  "or_changed changed r = then_do r (\<lambda>c ps. (Inr (changed \<or> c), ps))"

subsection \<open>The repair loop of \<^verbatim>\<open>modified_version.py\<close>\<close>

text \<open>The local variable that matters from one pair to the next is the flag \<open>changed\<close>.
  The average prices are a dictionary read with \<^verbatim>\<open>.get\<close>.\<close>

text \<open>Case 1: both products are not core, same variant and same deductible. The higher
  item's price is written directly, then the whole higher product is scaled.\<close>

definition fix_case1 ::
  "PriceElement list \<Rightarrow> PriceElement \<Rightarrow> PriceElement \<Rightarrow> int \<Rightarrow> rat \<Rightarrow> bool \<Rightarrow> prices \<Rightarrow> bool outcome" where
  "fix_case1 items lower higher lower_price ratio changed ps =
     (if \<not> is_core_product (product lower) \<and> \<not> is_core_product (product higher)
         \<and> variant lower = variant higher \<and> deductible lower = deductible higher then
        eval_in ps (dict_get ps (key higher)) (\<lambda>old_h.
          let new_h = py_round (of_int lower_price * ratio) in
          if old_h \<noteq> 0 then
            (let factor = of_int new_h / of_int old_h;
                 ps' = dict_set ps (key higher) new_h
             in or_changed changed (scale_product items ps' (product higher) factor))
          else (Inr changed, ps))
      else (Inr changed, ps))"

text \<open>Case 2: the lower product is core, the higher one is not.\<close>

definition fix_case2 ::
  "PriceElement list \<Rightarrow> PriceElement \<Rightarrow> PriceElement \<Rightarrow> int \<Rightarrow> rat \<Rightarrow> bool \<Rightarrow> prices \<Rightarrow> bool outcome" where
  "fix_case2 items lower higher lower_price ratio changed ps =
     (if is_core_product (product lower) \<and> \<not> is_core_product (product higher) then
        eval_in ps (min_price_in_group items ps (\<lambda>it. product it = product higher)) (\<lambda>old_min.
          case old_min of
            None \<Rightarrow> (Inr changed, ps)
          | Some m \<Rightarrow>
              if m \<noteq> 0 then
                (let new_min = py_round (of_int lower_price * ratio);
                     factor = of_int new_min / of_int m
                 in or_changed changed (scale_product items ps (product higher) factor))
              else (Inr changed, ps))
      else (Inr changed, ps))"

text \<open>The branch \<^verbatim>\<open>pa != pb\<close>. A missing average or a zero denominator is the
  \<^verbatim>\<open>continue\<close>: the pair is left as it is.\<close>

definition fix_product_order ::
  "PriceElement list \<Rightarrow> (string \<rightharpoonup> rat) \<Rightarrow> PriceElement \<Rightarrow> PriceElement \<Rightarrow> bool \<Rightarrow> prices \<Rightarrow> bool outcome" where
  "fix_product_order items avg_prices lower higher changed ps =
     eval_in ps (dict_get ps (key lower)) (\<lambda>lower_price.
     eval_in ps (dict_get ps (key higher)) (\<lambda>higher_price.
       case avg_prices (product lower) of
         None \<Rightarrow> (Inr changed, ps)
       | Some avg_low \<Rightarrow>
           (case avg_prices (product higher) of
              None \<Rightarrow> (Inr changed, ps)
            | Some avg_high \<Rightarrow>
                if avg_low = 0 then (Inr changed, ps)
                else
                  (let ratio = avg_high / avg_low in
                   if lower_price \<ge> higher_price then
                     then_do (fix_case1 items lower higher lower_price ratio changed ps)
                       (fix_case2 items lower higher lower_price ratio)
                   else (Inr changed, ps)))))"

text \<open>The two schedule branches of \<^verbatim>\<open>pa == pb\<close>.\<close>

definition fix_deductible ::
  "PriceElement list \<Rightarrow> PriceElement \<Rightarrow> PriceElement \<Rightarrow> int option \<Rightarrow> int option \<Rightarrow> bool \<Rightarrow> prices \<Rightarrow> bool outcome" where
  "fix_deductible items a b da db changed ps =
     eval_in ps (opt_less da db) (\<lambda>lt.
       let (lower_d, higher_d) = (if lt then (a, b) else (b, a)) in
       eval_in ps (dict_get ps (key lower_d)) (\<lambda>lower_price.
       eval_in ps (dict_get ps (key higher_d)) (\<lambda>higher_price.
         if lower_price \<le> higher_price then
           (let grp = group_items items
                  (\<lambda>it. product it = product a \<and> \<not> is_core_product (product it)
                        \<and> variant it = variant a)
            in eval_in ps (max_price_in_group grp ps
                      (\<lambda>it. bind (get_deductible_rank (deductible it)) (\<lambda>r. Inr (r = 1))))
                 (\<lambda>base. case base of
                     None \<Rightarrow> (Inr changed, ps)
                   | Some bs \<Rightarrow> or_changed changed (apply_deductible_schedule grp ps bs)))
         else (Inr changed, ps))))"

definition fix_variant ::
  "PriceElement list \<Rightarrow> PriceElement \<Rightarrow> PriceElement \<Rightarrow> int option \<Rightarrow> int option \<Rightarrow> bool \<Rightarrow> prices \<Rightarrow> bool outcome" where
  "fix_variant items a b va vb changed ps =
     eval_in ps (opt_less va vb) (\<lambda>lt.
       let (lower_v, higher_v) = (if lt then (a, b) else (b, a)) in
       eval_in ps (dict_get ps (key lower_v)) (\<lambda>lower_price.
       eval_in ps (dict_get ps (key higher_v)) (\<lambda>higher_price.
         if lower_price \<ge> higher_price then
           (let grp = group_items items
                  (\<lambda>it. product it = product a \<and> \<not> is_core_product (product it)
                        \<and> deductible it = deductible a)
            in eval_in ps (max_price_in_group grp ps
                      (\<lambda>it. bind (get_variant_rank (variant it)) (\<lambda>r. Inr (r = 1))))
                 (\<lambda>base. case base of
                     None \<Rightarrow> (Inr changed, ps)
                   | Some bs \<Rightarrow> or_changed changed (apply_variant_schedule grp ps bs)))
         else (Inr changed, ps))))"

text \<open>The body of the pair scan for one pair \<open>(a, b)\<close>.\<close>

definition fix_pair ::
  "PriceElement list \<Rightarrow> (string \<rightharpoonup> rat) \<Rightarrow> PriceElement \<Rightarrow> PriceElement \<Rightarrow> bool \<Rightarrow> prices \<Rightarrow> bool outcome" where
  "fix_pair items avg_prices a b changed ps =
     eval_in ps (get_product_rank (product a)) (\<lambda>pa.
     eval_in ps (get_product_rank (product b)) (\<lambda>pb.
     let a_is_core = is_core_product (product a);
         b_is_core = is_core_product (product b) in
     eval_in ps (rank_unless_core a_is_core (get_variant_rank (variant a))) (\<lambda>va.
     eval_in ps (rank_unless_core b_is_core (get_variant_rank (variant b))) (\<lambda>vb.
     eval_in ps (rank_unless_core a_is_core (get_deductible_rank (deductible a))) (\<lambda>da.
     eval_in ps (rank_unless_core b_is_core (get_deductible_rank (deductible b))) (\<lambda>db.
     eval_in ps (dict_get ps (key a)) (\<lambda>price_a.
     eval_in ps (dict_get ps (key b)) (\<lambda>price_b.
       if pa \<noteq> pb then
         (let (lower, higher) = (if pa < pb then (a, b) else (b, a))
          in fix_product_order items avg_prices lower higher changed ps)
       else
         then_do (if \<not> a_is_core \<and> \<not> b_is_core \<and> va = vb \<and> da \<noteq> db
                  then fix_deductible items a b da db changed ps else (Inr changed, ps))
           (\<lambda>changed' ps'. if \<not> a_is_core \<and> \<not> b_is_core \<and> da = db \<and> va \<noteq> vb
                  then fix_variant items a b va vb changed' ps' else (Inr changed', ps'))))))))))"

text \<open>One iteration of the outer loop: \<open>changed\<close> starts at \<open>False\<close>, all pairs are scanned.\<close>

definition fix_iteration ::
  "PriceElement list \<Rightarrow> (string \<rightharpoonup> rat) \<Rightarrow> prices \<Rightarrow> bool outcome" where
  "fix_iteration items avg_prices ps = outer_loop (fix_pair items avg_prices) items False ps"

text \<open>\<^verbatim>\<open>for _ in range(max_iters)\<close> with the \<^verbatim>\<open>break\<close>: the first argument is the number
  of iterations left, the value of the outcome is the number of iterations that were
  executed.\<close>

fun fix_loop ::
  "nat \<Rightarrow> PriceElement list \<Rightarrow> (string \<rightharpoonup> rat) \<Rightarrow> nat \<Rightarrow> prices \<Rightarrow> nat outcome" where
  "fix_loop 0 items avg_prices done ps = (Inr done, ps)"
| "fix_loop (Suc n) items avg_prices done ps =
     then_do (fix_iteration items avg_prices ps) (\<lambda>changed ps'.
       if \<not> changed then (Inr (Suc done), ps')
       else fix_loop n items avg_prices (Suc done) ps')"

definition fix_run ::
  "PriceElement list \<Rightarrow> prices \<Rightarrow> (string \<rightharpoonup> rat) \<Rightarrow> int \<Rightarrow> nat outcome" where
  "fix_run items ps avg_prices max_iters = fix_loop (nat max_iters) items avg_prices 0 ps"

text \<open>The function returns \<^verbatim>\<open>None\<close> and mutates the table.\<close>

definition fix_products_inplace ::
  "PriceElement list \<Rightarrow> prices \<Rightarrow> (string \<rightharpoonup> rat) \<Rightarrow> int \<Rightarrow> unit outcome" where
  "fix_products_inplace items ps avg_prices max_iters =
     then_do (fix_run items ps avg_prices max_iters) (\<lambda>n ps'. (Inr (), ps'))"

subsection \<open>The repair loop of \<^verbatim>\<open>main.py\<close>\<close>

text \<open>In \<^verbatim>\<open>main.py\<close> the variables \<^verbatim>\<open>lower_is_core\<close> and \<^verbatim>\<open>higher_is_core\<close> are
  assigned in the branch \<^verbatim>\<open>pa != pb\<close> only and read in the branch \<^verbatim>\<open>pa == pb\<close>: the
  branch reads what the last pair of different product ranks left there, and raises
  \<^verbatim>\<open>UnboundLocalError\<close> when there was none. The local variables of the scan are
  therefore \<open>changed\<close> and the two flags, \<open>None\<close> while they are unbound. The flags are
  locals of the function and survive from one iteration to the next.\<close>

type_synonym main_vars = "bool \<times> (bool \<times> bool) option"

text \<open>\<^verbatim>\<open>ratio = avg_high / avg_low\<close>, unguarded.\<close>

definition ratio_main :: "rat option \<Rightarrow> rat option \<Rightarrow> error + rat" where
  "ratio_main avg_high avg_low =
     (case avg_high of None \<Rightarrow> Inl TypeError
      | Some h \<Rightarrow> (case avg_low of None \<Rightarrow> Inl TypeError
                   | Some l \<Rightarrow> if l = 0 then Inl ZeroDivisionError else Inr (h / l)))"

text \<open>\<^verbatim>\<open>new / old\<close> on an integer and an optional integer.\<close>

definition factor_main :: "int \<Rightarrow> int option \<Rightarrow> error + rat" where
  "factor_main new old =
     (case old of None \<Rightarrow> Inl TypeError
      | Some v \<Rightarrow> if v = 0 then Inl ZeroDivisionError else Inr (of_int new / of_int v))"

text \<open>Case 1 writes the higher item's price and nothing else; \<open>changed\<close> is not touched.\<close>

definition fix_case1_main ::
  "PriceElement \<Rightarrow> PriceElement \<Rightarrow> bool \<Rightarrow> bool \<Rightarrow> int \<Rightarrow> rat \<Rightarrow> prices \<Rightarrow> unit outcome" where
  "fix_case1_main lower higher lower_is_core higher_is_core lower_price ratio ps =
     (if \<not> lower_is_core \<and> \<not> higher_is_core
         \<and> variant lower = variant higher \<and> deductible lower = deductible higher then
        eval_in ps (dict_get ps (key higher)) (\<lambda>old_h.
          let new_h = py_round (of_int lower_price * ratio) in
          eval_in ps (factor_main new_h (Some old_h)) (\<lambda>factor.
            (Inr (), dict_set ps (key higher) new_h)))
      else (Inr (), ps))"

text \<open>Case 2 scales every item of the higher product, each write unconditional.\<close>

fun scale_loop_main :: "PriceElement list \<Rightarrow> prices \<Rightarrow> string \<Rightarrow> rat \<Rightarrow> unit outcome" where
  "scale_loop_main [] ps p factor = (Inr (), ps)"
| "scale_loop_main (it # its) ps p factor =
     (if product it = p then
        eval_in ps (dict_get ps (key it)) (\<lambda>cur.
          scale_loop_main its (dict_set ps (key it) (py_round (of_int cur * factor))) p factor)
      else scale_loop_main its ps p factor)"

definition fix_case2_main ::
  "PriceElement list \<Rightarrow> PriceElement \<Rightarrow> PriceElement \<Rightarrow> int \<Rightarrow> rat \<Rightarrow> prices \<Rightarrow> unit outcome" where
  "fix_case2_main items lower higher lower_price ratio ps =
     (if product lower \<in> core_product \<and> product higher \<notin> core_product then
        eval_in ps (min_price_loop items ps (\<lambda>it. product it = product higher) None) (\<lambda>old_min.
          let new_min = py_round (of_int lower_price * ratio) in
          eval_in ps (factor_main new_min old_min) (\<lambda>factor.
            scale_loop_main items ps (product higher) factor))
      else (Inr (), ps))"

definition fix_product_order_main ::
  "PriceElement list \<Rightarrow> (string \<rightharpoonup> rat) \<Rightarrow> PriceElement \<Rightarrow> PriceElement \<Rightarrow> prices \<Rightarrow> unit outcome" where
  "fix_product_order_main items avg_prices lower higher ps =
     (let lower_is_core = product lower \<in> core_product;
          higher_is_core = product higher \<in> core_product in
      eval_in ps (dict_get ps (key lower)) (\<lambda>lower_price.
      eval_in ps (dict_get ps (key higher)) (\<lambda>higher_price.
      eval_in ps (ratio_main (avg_prices (product higher)) (avg_prices (product lower))) (\<lambda>ratio.
        if lower_price \<ge> higher_price then
          then_do (fix_case1_main lower higher lower_is_core higher_is_core lower_price ratio ps)
            (\<lambda>u. fix_case2_main items lower higher lower_price ratio)
        else (Inr (), ps)))))"

text \<open>The deductible schedule of \<^verbatim>\<open>main.py\<close> has no guard on \<^verbatim>\<open>base\<close>:
  \<^verbatim>\<open>base * (0.9 ** (r - 1))\<close> raises \<^verbatim>\<open>TypeError\<close> when \<^verbatim>\<open>base\<close> is \<^verbatim>\<open>None\<close>.\<close>

fun deductible_loop_main ::
  "PriceElement list \<Rightarrow> prices \<Rightarrow> int option \<Rightarrow> bool \<Rightarrow> bool outcome" where
  "deductible_loop_main [] ps base changed = (Inr changed, ps)"
| "deductible_loop_main (it # its) ps base changed =
     eval_in ps (get_deductible_rank (deductible it)) (\<lambda>r.
       case base of
         None \<Rightarrow> (Inl TypeError, ps)
       | Some bs \<Rightarrow>
           (let new_price = deductible_price bs r in
            eval_in ps (dict_get ps (key it)) (\<lambda>cur.
              if new_price \<noteq> cur then deductible_loop_main its (dict_set ps (key it) new_price) base True
              else deductible_loop_main its ps base changed)))"

definition fix_deductible_main ::
  "PriceElement list \<Rightarrow> PriceElement \<Rightarrow> PriceElement \<Rightarrow> int option \<Rightarrow> int option \<Rightarrow> bool \<Rightarrow> prices \<Rightarrow> bool outcome" where
  "fix_deductible_main items a b da db changed ps =
     eval_in ps (opt_less da db) (\<lambda>lt.
       let (lower_d, higher_d) = (if lt then (a, b) else (b, a)) in
       eval_in ps (dict_get ps (key lower_d)) (\<lambda>lower_price.
       eval_in ps (dict_get ps (key higher_d)) (\<lambda>higher_price.
         if lower_price \<le> higher_price then
           (let grp = filter
                  (\<lambda>it. product it = product a \<and> product it \<notin> core_product
                        \<and> variant it = variant a) items
            in eval_in ps (max_price_loop grp ps
                      (\<lambda>it. bind (get_deductible_rank (deductible it)) (\<lambda>r. Inr (r = 1))) None)
                 (\<lambda>base. deductible_loop_main grp ps base changed))
         else (Inr changed, ps))))"

definition fix_variant_main ::
  "PriceElement list \<Rightarrow> PriceElement \<Rightarrow> PriceElement \<Rightarrow> int option \<Rightarrow> int option \<Rightarrow> bool \<Rightarrow> prices \<Rightarrow> bool outcome" where
  "fix_variant_main items a b va vb changed ps =
     eval_in ps (opt_less va vb) (\<lambda>lt.
       let (lower_v, higher_v) = (if lt then (a, b) else (b, a)) in
       eval_in ps (dict_get ps (key lower_v)) (\<lambda>lower_price.
       eval_in ps (dict_get ps (key higher_v)) (\<lambda>higher_price.
         if lower_price \<ge> higher_price then
           (let grp = filter
                  (\<lambda>it. product it = product a \<and> product it \<notin> core_product
                        \<and> deductible it = deductible a) items
            in eval_in ps (max_price_loop grp ps
                      (\<lambda>it. bind (get_variant_rank (variant it)) (\<lambda>r. Inr (r = 1))) None)
                 (\<lambda>base. case base of
                     None \<Rightarrow> (Inr changed, ps)
                   | Some bs \<Rightarrow> variant_schedule_loop grp ps bs changed))
         else (Inr changed, ps))))"

definition fix_pair_main ::
  "PriceElement list \<Rightarrow> (string \<rightharpoonup> rat) \<Rightarrow> PriceElement \<Rightarrow> PriceElement \<Rightarrow> main_vars \<Rightarrow> prices
     \<Rightarrow> main_vars outcome" where
  "fix_pair_main items avg_prices a b vars ps =
     (case vars of (changed, flags) \<Rightarrow>
        eval_in ps (get_product_rank (product a)) (\<lambda>pa.
        eval_in ps (get_product_rank (product b)) (\<lambda>pb.
        eval_in ps (rank_unless_core (product a \<in> core_product) (get_variant_rank (variant a))) (\<lambda>va.
        eval_in ps (rank_unless_core (product b \<in> core_product) (get_variant_rank (variant b))) (\<lambda>vb.
        eval_in ps (rank_unless_core (product a \<in> core_product) (get_deductible_rank (deductible a))) (\<lambda>da.
        eval_in ps (rank_unless_core (product b \<in> core_product) (get_deductible_rank (deductible b))) (\<lambda>db.
          if pa \<noteq> pb then
            (let (lower, higher) = (if pa < pb then (a, b) else (b, a)) in
             then_do (fix_product_order_main items avg_prices lower higher ps) (\<lambda>u ps'.
               (Inr (changed, Some (product lower \<in> core_product, product higher \<in> core_product)), ps')))
          else
            (case flags of
               None \<Rightarrow> (Inl UnboundLocalError, ps)
             | Some (lower_is_core, higher_is_core) \<Rightarrow>
                 if \<not> lower_is_core \<and> \<not> higher_is_core \<and> va = vb \<and> da \<noteq> db then
                   then_do (fix_deductible_main items a b da db changed ps)
                     (\<lambda>changed' ps'. (Inr (changed', flags), ps'))
                 else if \<not> lower_is_core \<and> \<not> higher_is_core \<and> da = db \<and> va \<noteq> vb then
                   then_do (fix_variant_main items a b va vb changed ps)
                     (\<lambda>changed' ps'. (Inr (changed', flags), ps'))
                 else (Inr (changed, flags), ps)))))))))"

definition fix_iteration_main ::
  "PriceElement list \<Rightarrow> (string \<rightharpoonup> rat) \<Rightarrow> prices \<Rightarrow> (bool \<times> bool) option \<Rightarrow> main_vars outcome" where
  "fix_iteration_main items avg_prices ps flags =
     outer_loop (fix_pair_main items avg_prices) items (False, flags) ps"

fun fix_loop_main ::
  "nat \<Rightarrow> PriceElement list \<Rightarrow> (string \<rightharpoonup> rat) \<Rightarrow> (bool \<times> bool) option \<Rightarrow> nat \<Rightarrow> prices \<Rightarrow> nat outcome" where
  "fix_loop_main 0 items avg_prices flags done ps = (Inr done, ps)"
| "fix_loop_main (Suc n) items avg_prices flags done ps =
     then_do (fix_iteration_main items avg_prices ps flags) (\<lambda>vars ps'.
       if \<not> fst vars then (Inr (Suc done), ps')
       else fix_loop_main n items avg_prices (snd vars) (Suc done) ps')"

definition fix_run_main ::
  "PriceElement list \<Rightarrow> prices \<Rightarrow> (string \<rightharpoonup> rat) \<Rightarrow> int \<Rightarrow> nat outcome" where
  "fix_run_main items ps avg_prices max_iters = fix_loop_main (nat max_iters) items avg_prices None 0 ps"

definition fix_products_inplace_main ::
  "PriceElement list \<Rightarrow> prices \<Rightarrow> (string \<rightharpoonup> rat) \<Rightarrow> int \<Rightarrow> unit outcome" where
  "fix_products_inplace_main items ps avg_prices max_iters =
     then_do (fix_run_main items ps avg_prices max_iters) (\<lambda>n ps'. (Inr (), ps'))"

subsection \<open>The example data of \<^verbatim>\<open>run_example\<close>\<close>

text \<open>An element with variant and deductible, as \<^verbatim>\<open>parse_price_key\<close> builds it, and
  the average prices that \<^verbatim>\<open>run_example\<close> passes to the repair loop.\<close>

abbreviation element :: "string \<Rightarrow> string \<Rightarrow> string \<Rightarrow> int \<Rightarrow> PriceElement" where
  "element k p v d \<equiv> \<lparr>key = k, product = p, variant = Some v, deductible = Some d\<rparr>"

definition example_avg_prices :: "string \<rightharpoonup> rat" where
  "example_avg_prices = map_of [(''mtpl'', 400), (''limited_casco'', 800), (''casco'', 900)]"

section \<open>Properties named by the specification\<close>

text \<open>The definitions of this section are not code of the repository: they write down
  the properties that the specification states about it.\<close>

text \<open>Re-joining the parts of an element, in the words of the specification: product,
  variant and the decimal rendering of the deductible, joined by \<open>_\<close>; the product alone
  for an element without variant and deductible (the core product).\<close>

definition rejoin_key :: "PriceElement \<Rightarrow> string" where
  "rejoin_key e =
     (case variant e of
        None \<Rightarrow> product e
      | Some v \<Rightarrow> (case deductible e of
                    None \<Rightarrow> product e
                  | Some d \<Rightarrow> join ''_'' [product e, v, str_int d]))"

text \<open>The element is consistent with splitting the key on \<open>_\<close>: the core product is
  the key itself, a key of four tokens gives the two-word product, a key of three tokens
  gives product, variant and deductible in this order.\<close>

definition split_consistent :: "string \<Rightarrow> PriceElement \<Rightarrow> bool" where
  "split_consistent k e \<longleftrightarrow>
     (let parts = split_on (CHR ''_'') k in
      if k \<in> core_product then product e = k \<and> variant e = None \<and> deductible e = None
      else if length parts = 4 then
        product e = join ''_'' (take 2 parts) \<and> variant e = Some (parts ! 2)
          \<and> map_option Inr (deductible e) = Some (py_int (parts ! 3))
      else
        length parts = 3 \<and> product e = parts ! 0 \<and> variant e = Some (parts ! 1)
          \<and> map_option Inr (deductible e) = Some (py_int (parts ! 2)))"

text \<open>Monotonicity per axis, in the words of the specification. For every product and
  deductible the price does not decrease when the variant rank increases; for every
  product and variant it does not increase when the deductible rank increases. The core
  product has neither axis; items without a rank or without a price are not compared.\<close>

definition variant_monotone :: "PriceElement list \<Rightarrow> prices \<Rightarrow> bool" where
  "variant_monotone items ps \<longleftrightarrow>
     (\<forall>a \<in> set items. \<forall>b \<in> set items.
        product a = product b \<and> product a \<notin> core_product \<and> deductible a = deductible b \<longrightarrow>
        (case (get_variant_rank (variant a), get_variant_rank (variant b),
               map_of ps (key a), map_of ps (key b)) of
           (Inr ra, Inr rb, Some price_a, Some price_b) \<Rightarrow> ra < rb \<longrightarrow> price_a \<le> price_b
         | _ \<Rightarrow> True))"

definition deductible_monotone :: "PriceElement list \<Rightarrow> prices \<Rightarrow> bool" where
  "deductible_monotone items ps \<longleftrightarrow>
     (\<forall>a \<in> set items. \<forall>b \<in> set items.
        product a = product b \<and> product a \<notin> core_product \<and> variant a = variant b \<longrightarrow>
        (case (get_deductible_rank (deductible a), get_deductible_rank (deductible b),
               map_of ps (key a), map_of ps (key b)) of
           (Inr ra, Inr rb, Some price_a, Some price_b) \<Rightarrow> ra < rb \<longrightarrow> price_b \<le> price_a
         | _ \<Rightarrow> True))"

text \<open>The pairs that the scan visits, in its order.\<close>

fun scan_pairs :: "'a list \<Rightarrow> ('a \<times> 'a) list" where
  "scan_pairs [] = []"
| "scan_pairs (a # rest) = map (Pair a) rest @ scan_pairs rest"

text \<open>No correction is left on a table when the body of the scan of
  \<^verbatim>\<open>modified_version.py\<close>, started at any pair with the flag \<open>False\<close>, returns the table
  and the flag as they are.\<close>

definition no_correction_left :: "PriceElement list \<Rightarrow> (string \<rightharpoonup> rat) \<Rightarrow> prices \<Rightarrow> bool" where
  "no_correction_left items avg_prices ps \<longleftrightarrow>
     (\<forall>(a, b) \<in> set (scan_pairs items). fix_pair items avg_prices a b False ps = (Inr False, ps))"

text \<open>A group is anchored when it holds an item of rank 1 whose price is not negative:
  the schedules take their base price from such an item.\<close>

definition nonneg_price :: "prices \<Rightarrow> PriceElement \<Rightarrow> bool" where
  "nonneg_price ps it = (case map_of ps (key it) of None \<Rightarrow> False | Some p \<Rightarrow> 0 \<le> p)"

definition anchored :: "PriceElement list \<Rightarrow> prices \<Rightarrow> bool" where
  "anchored items ps \<longleftrightarrow>
     (\<forall>a \<in> set items. product a \<notin> core_product \<longrightarrow>
        (\<exists>it \<in> set items. product it = product a \<and> variant it = variant a
            \<and> get_deductible_rank (deductible it) = Inr 1 \<and> nonneg_price ps it)
      \<and> (\<exists>it \<in> set items. product it = product a \<and> deductible it = deductible a
            \<and> get_variant_rank (variant it) = Inr 1 \<and> nonneg_price ps it))"


section \<open>Sequencing\<close>

lemma bind_Inl [simp]: "bind (Inl e) f = Inl e"
  by (simp add: bind_def)

lemma bind_Inr [simp]: "bind (Inr x) f = f x"
  by (simp add: bind_def)

lemma bind_eq_Inr: "bind m f = Inr y \<longleftrightarrow> (\<exists>x. m = Inr x \<and> f x = Inr y)"
  by (cases m) auto

lemma eval_in_Inl [simp]: "eval_in ps (Inl e) f = (Inl e, ps)"
  by (simp add: eval_in_def)

lemma eval_in_Inr [simp]: "eval_in ps (Inr x) f = f x"
  by (simp add: eval_in_def)

lemma then_do_Inl [simp]: "then_do (Inl e, ps) f = (Inl e, ps)"
  by (simp add: then_do_def)

lemma then_do_Inr [simp]: "then_do (Inr x, ps) f = f x ps"
  by (simp add: then_do_def)

text \<open>How an outcome comes about: elimination rules for the two sequencing operators.\<close>

lemma eval_inE:
  assumes "eval_in ps m f = (r, ps')"
  obtains (raised) e where "m = Inl e" "r = Inl e" "ps' = ps"
  | (went_on) x where "m = Inr x" "f x = (r, ps')"
  using assms by (cases m) auto

lemma then_doE:
  assumes "then_do q f = (r, ps')"
  obtains (raised) e where "q = (Inl e, ps')" "r = Inl e"
  | (went_on) x ps1 where "q = (Inr x, ps1)" "f x ps1 = (r, ps')"
  using assms by (cases q; cases "fst q") auto

section \<open>The key parser\<close>

text \<open>Splitting and joining are inverse to each other.\<close>

lemma split_on_not_Nil: "split_on d s \<noteq> []"
  by (induction s) (auto split: list.splits)

lemma join_Cons_Cons: "join sep ((c # p) # ps) = c # join sep (p # ps)"
  by (cases ps) auto

lemma join_split_on: "join [d] (split_on d s) = s"
proof (induction s)
  case Nil
  then show ?case by simp
next
  case (Cons c cs)
  obtain p ps where sp: "split_on d cs = p # ps"
    using split_on_not_Nil [of d cs] by (cases "split_on d cs") auto
  show ?case
  proof (cases "c = d")
    case True
    then show ?thesis using Cons sp by simp
  next
    case False
    then show ?thesis using Cons sp by (simp add: join_Cons_Cons)
  qed
qed

lemma split_on_no_delim: "d \<notin> set s \<Longrightarrow> split_on d s = [s]"
  by (induction s) auto

lemma length3: "length xs = 3 \<Longrightarrow> xs = [xs ! 0, xs ! 1, xs ! 2]"
  by (cases xs; cases "tl xs"; cases "tl (tl xs)") (auto simp: numeral_3_eq_3)

lemma length4: "length xs = 4 \<Longrightarrow> xs = [xs ! 0, xs ! 1, xs ! 2, xs ! 3]"
proof -
  assume l: "length xs = 4"
  then obtain a b c d where "xs = [a, b, c, d]"
    by (cases xs; cases "tl xs"; cases "tl (tl xs)"; cases "tl (tl (tl xs))") auto
  then show ?thesis by simp
qed

text \<open>
  Claim C10. A key of exactly three tokens whose first two are \<open>limited\<close> and \<open>casco\<close> and
  whose third parses as an integer, such as \<open>limited_casco_100\<close>, is accepted by
  \<^verbatim>\<open>parse_price_key\<close> through the three-token branch: the product is \<open>limited\<close> and the
  variant is \<open>casco\<close>; the two-word product \<open>limited_casco\<close> is not recognised and no error
  is raised.
\<close>

theorem parse_limited_casco_three_tokens:
  assumes "py_int tok = Inr n" and "CHR ''_'' \<notin> set tok"
  shows "parse_price_key (''limited_casco_'' @ tok) =
           Inr \<lparr>key = ''limited_casco_'' @ tok, product = ''limited'',
                variant = Some ''casco'', deductible = Some n\<rparr>"
proof -
  have "split_on (CHR ''_'') (''limited_casco_'' @ tok) = [''limited'', ''casco'', tok]"
    using assms(2) by (simp add: split_on_no_delim)
  then show ?thesis
    using assms(1) by (simp add: parse_price_key_def)
qed

theorem parse_limited_casco_three_tokens_witness:
  "py_int ''100'' = Inr 100 \<and> CHR ''_'' \<notin> set ''100'' \<and>
   parse_price_key ''limited_casco_100'' =
     Inr \<lparr>key = ''limited_casco_100'', product = ''limited'',
          variant = Some ''casco'', deductible = Some 100\<rparr>"
proof -
  have a: "py_int ''100'' = Inr 100" by code_simp
  have b: "CHR ''_'' \<notin> set ''100''" by simp
  show ?thesis
    using a b parse_limited_casco_three_tokens [OF a b] by simp
qed

text \<open>
  Claim C7, as amended. For every key that the key parser accepts and whose deductible
  token is the decimal rendering of the parsed deductible (no sign \<open>+\<close>, no leading zero, no
  surrounding whitespace), the element keeps the key, its product, variant and deductible
  are the ones obtained by splitting the key on \<open>_\<close>, and joining product, variant and the
  decimal rendering of the deductible with \<open>_\<close> (the product alone for the core product)
  gives the key back.
\<close>

theorem key_round_trip_canonical:
  assumes "build_item k = Inr e"
    and "\<forall>d. deductible e = Some d \<longrightarrow> str_int d = last (split_on (CHR ''_'') k)"
  shows "key e = k \<and> split_consistent k e \<and> rejoin_key e = k"
proof (cases "k \<in> core_product")
  case True
  then show ?thesis
    using assms(1) by (auto simp: build_item_def split_consistent_def rejoin_key_def)
next
  case False
  let ?parts = "split_on (CHR ''_'') k"
  have p: "parse_price_key k = Inr e"
    using assms(1) False by (simp add: build_item_def)
  have j: "join ''_'' ?parts = k"
    by (rule join_split_on)
  show ?thesis
  proof (cases "take 2 ?parts = [''limited'', ''casco''] \<and> length ?parts = 4")
    case True
    then have l: "length ?parts = 4" and t: "take 2 ?parts = [''limited'', ''casco'']"
      by simp_all
    from length4 [OF l] obtain a b c d where ps: "?parts = [a, b, c, d]"
      by blast
    from t ps have ab: "a = ''limited''" "b = ''casco''" by simp_all
    from p True ps obtain n where n: "py_int d = Inr n"
      and e: "e = \<lparr>key = k, product = ''limited_casco'', variant = Some c, deductible = Some n\<rparr>"
      by (auto simp: parse_price_key_def Let_def bind_eq_Inr)
    from assms(2) e ps have s: "str_int n = d" by simp
    have "rejoin_key e = join ''_'' ?parts"
      unfolding ps using e s ab by (simp add: rejoin_key_def)
    moreover have "split_consistent k e"
      using False e n ps ab by (simp add: split_consistent_def)
    ultimately show ?thesis using j e by simp
  next
    case F: False
    with p have l: "length ?parts = 3"
      by (auto simp: parse_price_key_def Let_def split: if_splits)
    from length3 [OF l] obtain a b c where ps: "?parts = [a, b, c]"
      by blast
    from p F l ps obtain n where n: "py_int c = Inr n"
      and e: "e = \<lparr>key = k, product = a, variant = Some b, deductible = Some n\<rparr>"
      by (auto simp: parse_price_key_def Let_def bind_eq_Inr split: if_splits)
    from assms(2) e ps have s: "str_int n = c" by simp
    have "rejoin_key e = join ''_'' ?parts"
      unfolding ps using e s by (simp add: rejoin_key_def)
    moreover have "split_consistent k e"
      using False e n ps by (simp add: split_consistent_def)
    ultimately show ?thesis using j e by simp
  qed
qed

theorem key_round_trip_canonical_witness:
  "build_item ''limited_casco_basic_100'' =
     Inr \<lparr>key = ''limited_casco_basic_100'', product = ''limited_casco'',
          variant = Some ''basic'', deductible = Some 100\<rparr>
   \<and> str_int 100 = last (split_on (CHR ''_'') ''limited_casco_basic_100'')
   \<and> split_consistent ''limited_casco_basic_100''
         \<lparr>key = ''limited_casco_basic_100'', product = ''limited_casco'',
          variant = Some ''basic'', deductible = Some 100\<rparr>
   \<and> rejoin_key \<lparr>key = ''limited_casco_basic_100'', product = ''limited_casco'',
                   variant = Some ''basic'', deductible = Some 100\<rparr>
       = ''limited_casco_basic_100''"
proof -
  let ?e = "\<lparr>key = ''limited_casco_basic_100'', product = ''limited_casco'',
             variant = Some ''basic'', deductible = Some (100::int)\<rparr>"
  have a: "build_item ''limited_casco_basic_100'' = Inr ?e"
    by code_simp
  have c: "str_int 100 = last (split_on (CHR ''_'') ''limited_casco_basic_100'')"
    by code_simp
  then have b: "\<forall>d. deductible ?e = Some d
                  \<longrightarrow> str_int d = last (split_on (CHR ''_'') ''limited_casco_basic_100'')"
    by simp
  from key_round_trip_canonical [OF a b] a c show ?thesis
    by blast
qed

text \<open>
  Claim C7 as stated fails: \<^verbatim>\<open>int\<close> accepts the token \<open>0100\<close>, the parsed deductible is
  100, and re-joining with its decimal rendering gives \<open>casco_basic_100\<close>, not the key.
\<close>

theorem key_round_trip_counterexample:
  "build_item ''casco_basic_0100'' =
     Inr \<lparr>key = ''casco_basic_0100'', product = ''casco'', variant = Some ''basic'',
          deductible = Some 100\<rparr>
   \<and> rejoin_key \<lparr>key = ''casco_basic_0100'', product = ''casco'', variant = Some ''basic'',
                   deductible = Some 100\<rparr> = ''casco_basic_100''
   \<and> ''casco_basic_100'' \<noteq> ''casco_basic_0100''"
  by code_simp

section \<open>The keys of the price table\<close>

text \<open>A property of the table that every step of a pair scan keeps is kept by the scan,
  whether it returns or raises.\<close>

lemma inner_loop_invariant:
  assumes "\<And>b v ps r ps'. P ps \<Longrightarrow> step a b v ps = (r, ps') \<Longrightarrow> P ps'"
    and "P ps" and "inner_loop step a bs v ps = (r, ps')"
  shows "P ps'"
  using assms(2,3)
proof (induction bs arbitrary: v ps)
  case Nil
  then show ?case by simp
next
  case (Cons b bs)
  from Cons.prems(2) have "then_do (step a b v ps) (inner_loop step a bs) = (r, ps')"
    by simp
  then show ?case
  proof (cases rule: then_doE)
    case (raised e)
    from assms(1) [OF Cons.prems(1) raised(1)] show ?thesis .
  next
    case (went_on x ps1)
    from assms(1) [OF Cons.prems(1) went_on(1)] have "P ps1" .
    from Cons.IH [OF this went_on(2)] show ?thesis .
  qed
qed

lemma outer_loop_invariant:
  assumes "\<And>a b v ps r ps'. P ps \<Longrightarrow> step a b v ps = (r, ps') \<Longrightarrow> P ps'"
    and "P ps" and "outer_loop step xs v ps = (r, ps')"
  shows "P ps'"
  using assms(2,3)
proof (induction xs arbitrary: v ps)
  case Nil
  then show ?case by simp
next
  case (Cons a rest)
  from Cons.prems(2) have "then_do (inner_loop step a rest v ps) (outer_loop step rest) = (r, ps')"
    by simp
  then show ?case
  proof (cases rule: then_doE)
    case (raised e)
    show ?thesis
      by (rule inner_loop_invariant [where P = P and step = step, OF assms(1) Cons.prems(1) raised(1)])
  next
    case (went_on x ps1)
    have "P ps1"
      by (rule inner_loop_invariant [where P = P and step = step, OF assms(1) Cons.prems(1) went_on(1)])
    from Cons.IH [OF this went_on(2)] show ?thesis .
  qed
qed

text \<open>A write to a key that was just read keeps the list of keys.\<close>

lemma keys_dict_set: "dict_get ps k = Inr v \<Longrightarrow> map fst (dict_set ps k v') = map fst ps"
proof -
  assume "dict_get ps k = Inr v"
  then have "map_of ps k = Some v"
    by (simp add: dict_get_def split: option.splits)
  then have "k \<in> fst ` set ps"
    by (metis map_of_eq_None_iff option.distinct(1))
  then show ?thesis
    by (simp add: dict_set_def update_keys)
qed

lemma scale_product_loop_keys:
  "scale_product_loop its ps p f c = (r, ps') \<Longrightarrow> map fst ps' = map fst ps"
proof (induction its arbitrary: ps c)
  case Nil
  then show ?case by simp
next
  case (Cons it its)
  then show ?case
    by (auto simp: Let_def keys_dict_set split: if_splits elim!: eval_inE)
qed

lemma deductible_schedule_loop_keys:
  "deductible_schedule_loop its ps base c = (r, ps') \<Longrightarrow> map fst ps' = map fst ps"
proof (induction its arbitrary: ps c)
  case Nil
  then show ?case by simp
next
  case (Cons it its)
  then show ?case
    by (auto simp: Let_def keys_dict_set split: if_splits elim!: eval_inE)
qed

lemma variant_schedule_loop_keys:
  "variant_schedule_loop its ps base c = (r, ps') \<Longrightarrow> map fst ps' = map fst ps"
proof (induction its arbitrary: ps c)
  case Nil
  then show ?case by simp
next
  case (Cons it its)
  then show ?case
    by (auto simp: Let_def keys_dict_set split: if_splits elim!: eval_inE)
qed

lemma or_changed_keys:
  assumes "or_changed c q = (r, ps')"
    and "\<And>r1 ps1. q = (r1, ps1) \<Longrightarrow> map fst ps1 = map fst ps"
  shows "map fst ps' = map fst ps"
  using assms by (auto simp: or_changed_def elim!: then_doE)

lemma fix_case1_keys:
  assumes "fix_case1 items lower higher lp ratio c ps = (r, ps')"
  shows "map fst ps' = map fst ps"
proof (cases "\<not> is_core_product (product lower) \<and> \<not> is_core_product (product higher)
         \<and> variant lower = variant higher \<and> deductible lower = deductible higher")
  case False
  with assms show ?thesis by (auto simp: fix_case1_def)
next
  case True
  with assms have "eval_in ps (dict_get ps (key higher)) (\<lambda>old_h.
          let new_h = py_round (of_int lp * ratio) in
          if old_h \<noteq> 0 then
            (let factor = of_int new_h / of_int old_h;
                 ps' = dict_set ps (key higher) new_h
             in or_changed c (scale_product items ps' (product higher) factor))
          else (Inr c, ps)) = (r, ps')"
    by (simp add: fix_case1_def)
  then show ?thesis
  proof (cases rule: eval_inE)
    case (raised e)
    then show ?thesis by simp
  next
    case (went_on old_h)
    show ?thesis
    proof (cases "old_h = 0")
      case True
      with went_on show ?thesis by (simp add: Let_def)
    next
      case False
      with went_on(2) have "or_changed c (scale_product items
          (dict_set ps (key higher) (py_round (of_int lp * ratio))) (product higher)
          (of_int (py_round (of_int lp * ratio)) / of_int old_h)) = (r, ps')"
        by (simp add: Let_def)
      then have "map fst ps' = map fst (dict_set ps (key higher) (py_round (of_int lp * ratio)))"
        by (rule or_changed_keys) (auto simp: scale_product_def dest: scale_product_loop_keys)
      with keys_dict_set [OF went_on(1)] show ?thesis by simp
    qed
  qed
qed

lemma fix_case2_keys:
  assumes "fix_case2 items lower higher lp ratio c ps = (r, ps')"
  shows "map fst ps' = map fst ps"
  using assms
  by (auto simp: fix_case2_def Let_def scale_product_def or_changed_def
           split: if_splits option.splits elim!: eval_inE then_doE dest!: scale_product_loop_keys)

lemma fix_product_order_keys:
  assumes "fix_product_order items avg lower higher c ps = (r, ps')"
  shows "map fst ps' = map fst ps"
proof -
  from assms have "eval_in ps (dict_get ps (key lower)) (\<lambda>lower_price.
     eval_in ps (dict_get ps (key higher)) (\<lambda>higher_price.
       case avg (product lower) of
         None \<Rightarrow> (Inr c, ps)
       | Some avg_low \<Rightarrow>
           (case avg (product higher) of
              None \<Rightarrow> (Inr c, ps)
            | Some avg_high \<Rightarrow>
                if avg_low = 0 then (Inr c, ps)
                else
                  (let ratio = avg_high / avg_low in
                   if lower_price \<ge> higher_price then
                     then_do (fix_case1 items lower higher lower_price ratio c ps)
                       (fix_case2 items lower higher lower_price ratio)
                   else (Inr c, ps))))) = (r, ps')"
    by (simp add: fix_product_order_def)
  then show ?thesis
  proof (cases rule: eval_inE)
    case (raised e)
    then show ?thesis by simp
  next
    case (went_on lp)
    from went_on(2) show ?thesis
    proof (cases rule: eval_inE)
      case (raised e)
      then show ?thesis by simp
    next
      case (went_on hp)
      then show ?thesis
        by (auto simp: Let_def split: option.splits if_splits elim!: then_doE
                 dest!: fix_case1_keys fix_case2_keys)
    qed
  qed
qed

lemma fix_deductible_keys:
  assumes "fix_deductible items a b da db c ps = (r, ps')"
  shows "map fst ps' = map fst ps"
  using assms
  by (auto simp: fix_deductible_def Let_def apply_deductible_schedule_def or_changed_def
           split: if_splits option.splits elim!: eval_inE then_doE
           dest!: deductible_schedule_loop_keys)

lemma fix_variant_keys:
  assumes "fix_variant items a b va vb c ps = (r, ps')"
  shows "map fst ps' = map fst ps"
  using assms
  by (auto simp: fix_variant_def Let_def apply_variant_schedule_def or_changed_def
           split: if_splits option.splits elim!: eval_inE then_doE
           dest!: variant_schedule_loop_keys)

lemma fix_pair_keys:
  assumes "fix_pair items avg a b c ps = (r, ps')"
  shows "map fst ps' = map fst ps"
  using assms
  by (auto simp: fix_pair_def Let_def
           split: if_splits elim!: eval_inE then_doE
           dest!: fix_product_order_keys fix_deductible_keys fix_variant_keys)

lemma fix_iteration_keys:
  assumes "fix_iteration items avg ps = (r, ps')"
  shows "map fst ps' = map fst ps"
proof (rule outer_loop_invariant [where P = "\<lambda>s. map fst s = map fst ps"
      and step = "fix_pair items avg" and xs = items and v = False and ps = ps and r = r])
  fix a b v s r' s'
  assume "map fst s = map fst ps" "fix_pair items avg a b v s = (r', s')"
  then show "map fst s' = map fst ps"
    using fix_pair_keys [of items avg a b v s r' s'] by simp
next
  show "map fst ps = map fst ps" by simp
next
  show "outer_loop (fix_pair items avg) items False ps = (r, ps')"
    using assms by (simp add: fix_iteration_def)
qed

lemma fix_loop_keys:
  "fix_loop n items avg k ps = (r, ps') \<Longrightarrow> map fst ps' = map fst ps"
proof (induction n arbitrary: ps k)
  case 0
  then show ?case by simp
next
  case (Suc n)
  from Suc.prems have "then_do (fix_iteration items avg ps) (\<lambda>changed ps'.
       if \<not> changed then (Inr (Suc k), ps')
       else fix_loop n items avg (Suc k) ps') = (r, ps')"
    by simp
  then show ?case
  proof (cases rule: then_doE)
    case (raised e)
    from fix_iteration_keys [OF raised(1)] show ?thesis .
  next
    case (went_on changed ps1)
    from fix_iteration_keys [OF went_on(1)] have k1: "map fst ps1 = map fst ps" .
    show ?thesis
    proof (cases changed)
      case True
      with went_on(2) have "fix_loop n items avg (Suc k) ps1 = (r, ps')" by simp
      from Suc.IH [OF this] k1 show ?thesis by simp
    next
      case False
      with went_on(2) k1 show ?thesis by simp
    qed
  qed
qed

text \<open>The number of iterations executed lies between the count at the start and the
  count at the start plus the budget.\<close>

lemma fix_loop_count:
  "fix_loop n items avg k ps = (Inr k', ps') \<Longrightarrow> k \<le> k' \<and> k' \<le> k + n"
proof (induction n arbitrary: ps k)
  case 0
  then show ?case by simp
next
  case (Suc n)
  from Suc.prems have "then_do (fix_iteration items avg ps) (\<lambda>changed ps'.
       if \<not> changed then (Inr (Suc k), ps')
       else fix_loop n items avg (Suc k) ps') = (Inr k', ps')"
    by simp
  then show ?case
  proof (cases rule: then_doE)
    case (raised e)
    then show ?thesis by simp
  next
    case (went_on changed ps1)
    show ?thesis
    proof (cases changed)
      case True
      with went_on(2) have "fix_loop n items avg (Suc k) ps1 = (Inr k', ps')" by simp
      from Suc.IH [OF this] show ?thesis by simp
    next
      case False
      with went_on(2) show ?thesis by auto
    qed
  qed
qed

text \<open>The same for the loops of \<^verbatim>\<open>main.py\<close>.\<close>

lemma scale_loop_main_keys:
  "scale_loop_main its ps p f = (r, ps') \<Longrightarrow> map fst ps' = map fst ps"
proof (induction its arbitrary: ps)
  case Nil
  then show ?case by simp
next
  case (Cons it its)
  then show ?case
    by (auto simp: keys_dict_set split: if_splits elim!: eval_inE)
qed

lemma deductible_loop_main_keys:
  "deductible_loop_main its ps base c = (r, ps') \<Longrightarrow> map fst ps' = map fst ps"
proof (induction its arbitrary: ps c)
  case Nil
  then show ?case by simp
next
  case (Cons it its)
  then show ?case
    by (auto simp: Let_def keys_dict_set split: if_splits option.splits elim!: eval_inE)
qed

lemma fix_case1_main_keys:
  "fix_case1_main lower higher lc hc lp ratio ps = (r, ps') \<Longrightarrow> map fst ps' = map fst ps"
  by (auto simp: fix_case1_main_def Let_def keys_dict_set split: if_splits elim!: eval_inE)

lemma fix_case2_main_keys:
  "fix_case2_main items lower higher lp ratio ps = (r, ps') \<Longrightarrow> map fst ps' = map fst ps"
  by (auto simp: fix_case2_main_def Let_def split: if_splits elim!: eval_inE
           dest!: scale_loop_main_keys)

lemma fix_product_order_main_keys:
  "fix_product_order_main items avg lower higher ps = (r, ps') \<Longrightarrow> map fst ps' = map fst ps"
  by (auto simp: fix_product_order_main_def Let_def
           split: if_splits elim!: eval_inE then_doE
           dest!: fix_case1_main_keys fix_case2_main_keys)

lemma fix_deductible_main_keys:
  "fix_deductible_main items a b da db c ps = (r, ps') \<Longrightarrow> map fst ps' = map fst ps"
  by (auto simp: fix_deductible_main_def Let_def
           split: if_splits elim!: eval_inE dest!: deductible_loop_main_keys)

lemma fix_variant_main_keys:
  "fix_variant_main items a b va vb c ps = (r, ps') \<Longrightarrow> map fst ps' = map fst ps"
  by (auto simp: fix_variant_main_def Let_def
           split: if_splits option.splits elim!: eval_inE dest!: variant_schedule_loop_keys)

lemma fix_pair_main_keys:
  assumes "fix_pair_main items avg a b vars ps = (r, ps')"
  shows "map fst ps' = map fst ps"
  using assms
  by (cases vars)
     (auto simp: fix_pair_main_def Let_def
           split: if_splits option.splits elim!: eval_inE then_doE
           dest!: fix_product_order_main_keys fix_deductible_main_keys fix_variant_main_keys)

lemma fix_iteration_main_keys:
  assumes "fix_iteration_main items avg ps fl = (r, ps')"
  shows "map fst ps' = map fst ps"
proof (rule outer_loop_invariant [where P = "\<lambda>s. map fst s = map fst ps"
      and step = "fix_pair_main items avg" and xs = items and v = "(False, fl)" and ps = ps and r = r])
  fix a b v s r' s'
  assume "map fst s = map fst ps" "fix_pair_main items avg a b v s = (r', s')"
  then show "map fst s' = map fst ps"
    using fix_pair_main_keys [of items avg a b v s r' s'] by simp
next
  show "map fst ps = map fst ps" by simp
next
  show "outer_loop (fix_pair_main items avg) items (False, fl) ps = (r, ps')"
    using assms by (simp add: fix_iteration_main_def)
qed

lemma fix_loop_main_keys:
  "fix_loop_main n items avg fl k ps = (r, ps') \<Longrightarrow> map fst ps' = map fst ps"
proof (induction n arbitrary: ps fl k)
  case 0
  then show ?case by simp
next
  case (Suc n)
  from Suc.prems have "then_do (fix_iteration_main items avg ps fl) (\<lambda>vars ps'.
       if \<not> fst vars then (Inr (Suc k), ps')
       else fix_loop_main n items avg (snd vars) (Suc k) ps') = (r, ps')"
    by simp
  then show ?case
  proof (cases rule: then_doE)
    case (raised e)
    from fix_iteration_main_keys [OF raised(1)] show ?thesis .
  next
    case (went_on vars ps1)
    from fix_iteration_main_keys [OF went_on(1)] have k1: "map fst ps1 = map fst ps" .
    show ?thesis
    proof (cases "fst vars")
      case True
      with went_on(2) have "fix_loop_main n items avg (snd vars) (Suc k) ps1 = (r, ps')" by simp
      from Suc.IH [OF this] k1 show ?thesis by simp
    next
      case False
      with went_on(2) k1 show ?thesis by simp
    qed
  qed
qed

lemma fix_loop_main_count:
  "fix_loop_main n items avg fl k ps = (Inr k', ps') \<Longrightarrow> k \<le> k' \<and> k' \<le> k + n"
proof (induction n arbitrary: ps fl k)
  case 0
  then show ?case by simp
next
  case (Suc n)
  from Suc.prems have "then_do (fix_iteration_main items avg ps fl) (\<lambda>vars ps'.
       if \<not> fst vars then (Inr (Suc k), ps')
       else fix_loop_main n items avg (snd vars) (Suc k) ps') = (Inr k', ps')"
    by simp
  then show ?case
  proof (cases rule: then_doE)
    case (raised e)
    then show ?thesis by simp
  next
    case (went_on vars ps1)
    show ?thesis
    proof (cases "fst vars")
      case True
      with went_on(2) have "fix_loop_main n items avg (snd vars) (Suc k) ps1 = (Inr k', ps')" by simp
      from Suc.IH [OF this] show ?thesis by simp
    next
      case False
      with went_on(2) show ?thesis by auto
    qed
  qed
qed

text \<open>
  Claim C9. A call of \<^verbatim>\<open>fix_products_inplace\<close> leaves the keys of the price table as they
  were, in either revision and whether it returns or raises: every write goes to a key
  that was read just before, so no entry is added, and nothing deletes one. The keys even
  keep their order; only the values may differ.
\<close>

theorem fix_keeps_key_set:
  assumes "fix_products_inplace items ps avg max_iters = (r, ps')
           \<or> fix_products_inplace_main items ps avg max_iters = (r, ps')"
  shows "fst ` set ps' = fst ` set ps \<and> map fst ps' = map fst ps"
proof -
  have "map fst ps' = map fst ps"
    using assms
    by (auto simp: fix_products_inplace_def fix_products_inplace_main_def fix_run_def
          fix_run_main_def elim!: then_doE dest!: fix_loop_keys fix_loop_main_keys)
  moreover from this have "fst ` set ps' = fst ` set ps"
    by (metis set_map)
  ultimately show ?thesis by simp
qed

theorem fix_keeps_key_set_witness:
  "fix_products_inplace
     [element ''casco_comfort_100'' ''casco'' ''comfort'' 100,
      element ''casco_comfort_200'' ''casco'' ''comfort'' 200]
     [(''casco_comfort_100'', 100), (''casco_comfort_200'', 200)] example_avg_prices 10
   = (Inr (), [(''casco_comfort_100'', 100), (''casco_comfort_200'', 90)])
   \<and> fst ` set [(''casco_comfort_100'', 100::int), (''casco_comfort_200'', 90)]
       = fst ` set [(''casco_comfort_100'', 100::int), (''casco_comfort_200'', 200)]
   \<and> fix_products_inplace_main
     [element ''limited_casco_basic_100'' ''limited_casco'' ''basic'' 100,
      element ''casco_comfort_100'' ''casco'' ''comfort'' 100,
      element ''casco_comfort_200'' ''casco'' ''comfort'' 200,
      element ''casco_premium_200'' ''casco'' ''premium'' 200,
      element ''casco_premium_500'' ''casco'' ''premium'' 500]
     [(''limited_casco_basic_100'', 50), (''casco_comfort_100'', 100),
      (''casco_comfort_200'', 200), (''casco_premium_200'', 150),
      (''casco_premium_500'', 160)] example_avg_prices 10
   = (Inl TypeError,
      [(''limited_casco_basic_100'', 50), (''casco_comfort_100'', 100),
       (''casco_comfort_200'', 90), (''casco_premium_200'', 150),
       (''casco_premium_500'', 160)])
   \<and> fst ` set [(''limited_casco_basic_100'', 50::int), (''casco_comfort_100'', 100),
                 (''casco_comfort_200'', 90), (''casco_premium_200'', 150),
                 (''casco_premium_500'', 160)]
       = fst ` set [(''limited_casco_basic_100'', 50::int), (''casco_comfort_100'', 100),
                    (''casco_comfort_200'', 200), (''casco_premium_200'', 150),
                    (''casco_premium_500'', 160)]"
proof -
  have a: "fix_products_inplace
     [element ''casco_comfort_100'' ''casco'' ''comfort'' 100,
      element ''casco_comfort_200'' ''casco'' ''comfort'' 200]
     [(''casco_comfort_100'', 100), (''casco_comfort_200'', 200)] example_avg_prices 10
   = (Inr (), [(''casco_comfort_100'', 100), (''casco_comfort_200'', 90)])"
    by code_simp
  have b: "fix_products_inplace_main
     [element ''limited_casco_basic_100'' ''limited_casco'' ''basic'' 100,
      element ''casco_comfort_100'' ''casco'' ''comfort'' 100,
      element ''casco_comfort_200'' ''casco'' ''comfort'' 200,
      element ''casco_premium_200'' ''casco'' ''premium'' 200,
      element ''casco_premium_500'' ''casco'' ''premium'' 500]
     [(''limited_casco_basic_100'', 50), (''casco_comfort_100'', 100),
      (''casco_comfort_200'', 200), (''casco_premium_200'', 150),
      (''casco_premium_500'', 160)] example_avg_prices 10
   = (Inl TypeError,
      [(''limited_casco_basic_100'', 50), (''casco_comfort_100'', 100),
       (''casco_comfort_200'', 90), (''casco_premium_200'', 150),
       (''casco_premium_500'', 160)])"
    by code_simp
  from fix_keeps_key_set [OF disjI1 [OF a]] fix_keeps_key_set [OF disjI2 [OF b]] a b
  show ?thesis
    by blast
qed

section \<open>The repair loop: the guard, the flag \<open>changed\<close> and the fixed point\<close>

text \<open>In \<^verbatim>\<open>modified_version.py\<close> a pair of different product ranks whose averages cannot
  give a ratio is left alone: the state comes back as it was. (The two price lookups are
  the ones the branch makes before it looks at the averages.)\<close>

lemma fix_product_order_skips:
  assumes "dict_get ps (key lower) = Inr lower_price"
    and "dict_get ps (key higher) = Inr higher_price"
    and "avg (product lower) = None \<or> avg (product higher) = None \<or> avg (product lower) = Some 0"
  shows "fix_product_order items avg lower higher changed ps = (Inr changed, ps)"
  using assms by (auto simp: fix_product_order_def split: option.splits)

text \<open>So the whole step for such a pair is a skip, once the ranks and the two prices
  are there: no exception, the table and the flag as before, and the scan goes on with
  the next pair.\<close>

lemma fix_pair_skips:
  assumes "get_product_rank (product a) = Inr pa" and "get_product_rank (product b) = Inr pb"
    and "pa \<noteq> pb"
    and "rank_unless_core (is_core_product (product a)) (get_variant_rank (variant a)) = Inr va"
    and "rank_unless_core (is_core_product (product b)) (get_variant_rank (variant b)) = Inr vb"
    and "rank_unless_core (is_core_product (product a)) (get_deductible_rank (deductible a)) = Inr da"
    and "rank_unless_core (is_core_product (product b)) (get_deductible_rank (deductible b)) = Inr db"
    and "dict_get ps (key a) = Inr price_a" and "dict_get ps (key b) = Inr price_b"
    and "avg (product a) = None \<or> avg (product b) = None
         \<or> avg (product (if pa < pb then a else b)) = Some 0"
  shows "fix_pair items avg a b changed ps = (Inr changed, ps)"
proof (cases "pa < pb")
  case True
  with assms(10) have "avg (product a) = None \<or> avg (product b) = None \<or> avg (product a) = Some 0"
    by simp
  from fix_product_order_skips [OF assms(8) assms(9) this, of items changed] assms(1-9) True
  show ?thesis
    by (simp add: fix_pair_def Let_def)
next
  case False
  with assms(10) have "avg (product b) = None \<or> avg (product a) = None \<or> avg (product b) = Some 0"
    by auto
  from fix_product_order_skips [OF assms(9) assms(8) this, of items changed] assms(1-9) False
  show ?thesis
    by (simp add: fix_pair_def Let_def)
qed

text \<open>In \<^verbatim>\<open>main.py\<close> the same pair raises: the division is not guarded.\<close>

lemma fix_product_order_main_raises:
  assumes "dict_get ps (key lower) = Inr lower_price"
    and "dict_get ps (key higher) = Inr higher_price"
    and "avg (product lower) = None \<or> avg (product higher) = None \<or> avg (product lower) = Some 0"
  shows "fix_product_order_main items avg lower higher ps = (Inl TypeError, ps)
         \<or> fix_product_order_main items avg lower higher ps = (Inl ZeroDivisionError, ps)"
  using assms by (auto simp: fix_product_order_main_def ratio_main_def split: option.splits)

text \<open>
  Claim C1 at a failing input. The table holds \<open>limited_casco_basic_100\<close> at 500 and
  \<open>casco_basic_100\<close> at 600. With no average prices, \<^verbatim>\<open>main.py\<close> raises
  \<^verbatim>\<open>TypeError\<close>; with the average of \<open>limited_casco\<close> at zero it raises
  \<^verbatim>\<open>ZeroDivisionError\<close>. \<^verbatim>\<open>modified_version.py\<close> skips the pair and returns the table
  unchanged in both cases.
\<close>

theorem main_raises_on_missing_average:
  "fix_products_inplace_main
     [element ''limited_casco_basic_100'' ''limited_casco'' ''basic'' 100,
      element ''casco_basic_100'' ''casco'' ''basic'' 100]
     [(''limited_casco_basic_100'', 500), (''casco_basic_100'', 600)] Map.empty 10
   = (Inl TypeError, [(''limited_casco_basic_100'', 500), (''casco_basic_100'', 600)])
   \<and> fix_products_inplace_main
     [element ''limited_casco_basic_100'' ''limited_casco'' ''basic'' 100,
      element ''casco_basic_100'' ''casco'' ''basic'' 100]
     [(''limited_casco_basic_100'', 500), (''casco_basic_100'', 600)]
     (map_of [(''limited_casco'', 0), (''casco'', 900)]) 10
   = (Inl ZeroDivisionError, [(''limited_casco_basic_100'', 500), (''casco_basic_100'', 600)])
   \<and> fix_products_inplace
     [element ''limited_casco_basic_100'' ''limited_casco'' ''basic'' 100,
      element ''casco_basic_100'' ''casco'' ''basic'' 100]
     [(''limited_casco_basic_100'', 500), (''casco_basic_100'', 600)] Map.empty 10
   = (Inr (), [(''limited_casco_basic_100'', 500), (''casco_basic_100'', 600)])
   \<and> fix_products_inplace
     [element ''limited_casco_basic_100'' ''limited_casco'' ''basic'' 100,
      element ''casco_basic_100'' ''casco'' ''basic'' 100]
     [(''limited_casco_basic_100'', 500), (''casco_basic_100'', 600)]
     (map_of [(''limited_casco'', 0), (''casco'', 900)]) 10
   = (Inr (), [(''limited_casco_basic_100'', 500), (''casco_basic_100'', 600)])"
  by code_simp


lemma deductible_schedule_loop_flag:
  "deductible_schedule_loop its ps base c = (Inr c', ps') \<Longrightarrow> (c \<longrightarrow> c') \<and> (ps' \<noteq> ps \<longrightarrow> c')"
proof (induction its arbitrary: ps c)
  case Nil
  then show ?case by auto
next
  case (Cons it its)
  from Cons.prems obtain r cur where
    run: "(if deductible_price base r \<noteq> cur
           then deductible_schedule_loop its (dict_set ps (key it) (deductible_price base r)) base True
           else deductible_schedule_loop its ps base c) = (Inr c', ps')"
    by (auto simp: Let_def elim!: eval_inE)
  show ?case
  proof (cases "deductible_price base r \<noteq> cur")
    case True
    with run Cons.IH [of "dict_set ps (key it) (deductible_price base r)" True]
    show ?thesis by simp
  next
    case False
    with run Cons.IH [of ps c] show ?thesis by simp
  qed
qed

lemma variant_schedule_loop_flag:
  "variant_schedule_loop its ps base c = (Inr c', ps') \<Longrightarrow> (c \<longrightarrow> c') \<and> (ps' \<noteq> ps \<longrightarrow> c')"
proof (induction its arbitrary: ps c)
  case Nil
  then show ?case by auto
next
  case (Cons it its)
  from Cons.prems obtain r cur where
    run: "(if variant_price base r \<noteq> cur
           then variant_schedule_loop its (dict_set ps (key it) (variant_price base r)) base True
           else variant_schedule_loop its ps base c) = (Inr c', ps')"
    by (auto simp: Let_def elim!: eval_inE)
  show ?case
  proof (cases "variant_price base r \<noteq> cur")
    case True
    with run Cons.IH [of "dict_set ps (key it) (variant_price base r)" True]
    show ?thesis by simp
  next
    case False
    with run Cons.IH [of ps c] show ?thesis by simp
  qed
qed

lemma or_changed_flag:
  assumes "or_changed c q = (Inr c', ps')"
    and "\<And>c1. q = (Inr c1, ps') \<Longrightarrow> ps' \<noteq> ps \<longrightarrow> c1"
  shows "(c \<longrightarrow> c') \<and> (ps' \<noteq> ps \<longrightarrow> c')"
  using assms by (auto simp: or_changed_def elim!: then_doE)




text \<open>
  Claim C2 at a failing input. Both items cost 1 and the averages are 1000 for
  \<open>limited_casco\<close> and 400 for \<open>casco\<close>, so the ratio is 0.4 and the new price of
  \<open>casco_basic_100\<close> is \<open>round(0.4) = 0\<close>. One iteration writes this price, and its flag
  \<open>changed\<close> is still \<open>False\<close> at the end, in both revisions: \<^verbatim>\<open>main.py\<close> never sets
  the flag in the branch of different product ranks, and \<^verbatim>\<open>modified_version.py\<close> sets it
  only from \<^verbatim>\<open>scale_product\<close>, which finds the price already written.
\<close>

theorem changed_flag_misses_write:
  "fix_iteration
     [element ''limited_casco_basic_100'' ''limited_casco'' ''basic'' 100,
      element ''casco_basic_100'' ''casco'' ''basic'' 100]
     (map_of [(''limited_casco'', 1000), (''casco'', 400)])
     [(''limited_casco_basic_100'', 1), (''casco_basic_100'', 1)]
   = (Inr False, [(''limited_casco_basic_100'', 1), (''casco_basic_100'', 0)])
   \<and> fix_iteration_main
     [element ''limited_casco_basic_100'' ''limited_casco'' ''basic'' 100,
      element ''casco_basic_100'' ''casco'' ''basic'' 100]
     (map_of [(''limited_casco'', 1000), (''casco'', 400)])
     [(''limited_casco_basic_100'', 1), (''casco_basic_100'', 1)] None
   = (Inr (False, Some (False, False)), [(''limited_casco_basic_100'', 1), (''casco_basic_100'', 0)])
   \<and> [(''limited_casco_basic_100'', 1::int), (''casco_basic_100'', 0)]
       \<noteq> [(''limited_casco_basic_100'', 1), (''casco_basic_100'', 1)]"
  by code_simp

text \<open>In \<^verbatim>\<open>main.py\<close> a table whose first pair has equal product ranks raises
  \<^verbatim>\<open>UnboundLocalError\<close>, consistent or not: the flags have not been assigned yet.\<close>

lemma main_reads_unbound_flags:
  "fix_products_inplace_main
     [element ''casco_compact_100'' ''casco'' ''compact'' 100,
      element ''casco_compact_200'' ''casco'' ''compact'' 200]
     [(''casco_compact_100'', 500), (''casco_compact_200'', 450)] example_avg_prices 10
   = (Inl UnboundLocalError, [(''casco_compact_100'', 500), (''casco_compact_200'', 450)])
   \<and> detect_inconsistencies
     [element ''casco_compact_100'' ''casco'' ''compact'' 100,
      element ''casco_compact_200'' ''casco'' ''compact'' 200]
     [(''casco_compact_100'', 500), (''casco_compact_200'', 450)] = Inr []"
  by code_simp

text \<open>
  Claim C3 at a failing input. The detector reports nothing on this table: it compares
  deductibles only between items of the same variant. The repair loop compares them
  between items of the same variant rank, and \<open>compact\<close> and \<open>basic\<close> share rank 1: the
  pair of \<open>casco_compact_100\<close> (500) and \<open>casco_basic_200\<close> (600) triggers the deductible
  schedule of the \<open>compact\<close> group, which moves \<open>casco_compact_200\<close> from 480 to 450, in
  both revisions.
\<close>

theorem repair_mutates_consistent_table:
  "build_price_items
     [(''limited_casco_premium_500'', 300), (''casco_compact_100'', 500),
      (''casco_compact_200'', 480), (''casco_basic_200'', 600)]
   = Inr [element ''limited_casco_premium_500'' ''limited_casco'' ''premium'' 500,
          element ''casco_compact_100'' ''casco'' ''compact'' 100,
          element ''casco_compact_200'' ''casco'' ''compact'' 200,
          element ''casco_basic_200'' ''casco'' ''basic'' 200]
   \<and> detect_inconsistencies
     [element ''limited_casco_premium_500'' ''limited_casco'' ''premium'' 500,
      element ''casco_compact_100'' ''casco'' ''compact'' 100,
      element ''casco_compact_200'' ''casco'' ''compact'' 200,
      element ''casco_basic_200'' ''casco'' ''basic'' 200]
     [(''limited_casco_premium_500'', 300), (''casco_compact_100'', 500),
      (''casco_compact_200'', 480), (''casco_basic_200'', 600)]
   = Inr []
   \<and> fix_products_inplace
     [element ''limited_casco_premium_500'' ''limited_casco'' ''premium'' 500,
      element ''casco_compact_100'' ''casco'' ''compact'' 100,
      element ''casco_compact_200'' ''casco'' ''compact'' 200,
      element ''casco_basic_200'' ''casco'' ''basic'' 200]
     [(''limited_casco_premium_500'', 300), (''casco_compact_100'', 500),
      (''casco_compact_200'', 480), (''casco_basic_200'', 600)] example_avg_prices 10
   = (Inr (), [(''limited_casco_premium_500'', 300), (''casco_compact_100'', 500),
               (''casco_compact_200'', 450), (''casco_basic_200'', 600)])
   \<and> fix_products_inplace_main
     [element ''limited_casco_premium_500'' ''limited_casco'' ''premium'' 500,
      element ''casco_compact_100'' ''casco'' ''compact'' 100,
      element ''casco_compact_200'' ''casco'' ''compact'' 200,
      element ''casco_basic_200'' ''casco'' ''basic'' 200]
     [(''limited_casco_premium_500'', 300), (''casco_compact_100'', 500),
      (''casco_compact_200'', 480), (''casco_basic_200'', 600)] example_avg_prices 10
   = (Inr (), [(''limited_casco_premium_500'', 300), (''casco_compact_100'', 500),
               (''casco_compact_200'', 450), (''casco_basic_200'', 600)])"
  by code_simp

text \<open>The loop of either revision stops after the first iteration whose flag is
  \<open>False\<close> and goes on, with one iteration less to go, after one whose flag is
  \<open>True\<close>.\<close>

lemma fix_loop_break:
  "fix_iteration items avg ps = (Inr False, ps')
   \<Longrightarrow> fix_loop (Suc n) items avg k ps = (Inr (Suc k), ps')"
  by simp

lemma fix_loop_continue:
  "fix_iteration items avg ps = (Inr True, ps')
   \<Longrightarrow> fix_loop (Suc n) items avg k ps = fix_loop n items avg (Suc k) ps'"
  by simp

lemma fix_loop_main_break:
  "fix_iteration_main items avg ps fl = (Inr (False, fl'), ps')
   \<Longrightarrow> fix_loop_main (Suc n) items avg fl k ps = (Inr (Suc k), ps')"
  by simp

lemma fix_loop_main_continue:
  "fix_iteration_main items avg ps fl = (Inr (True, fl'), ps')
   \<Longrightarrow> fix_loop_main (Suc n) items avg fl k ps = fix_loop_main n items avg fl' (Suc k) ps'"
  by simp

text \<open>The budget bounds the number of iterations in both revisions, and the loops are
  total functions: a call always ends, by returning or by raising.\<close>

lemma fix_run_count:
  "fix_run items ps avg max_iters = (Inr n, ps') \<Longrightarrow> n \<le> nat max_iters"
  using fix_loop_count [of "nat max_iters" items avg 0 ps n ps'] by (simp add: fix_run_def)

lemma fix_run_main_count:
  "fix_run_main items ps avg max_iters = (Inr n, ps') \<Longrightarrow> n \<le> nat max_iters"
  using fix_loop_main_count [of "nat max_iters" items avg None 0 ps n ps']
  by (simp add: fix_run_main_def)

text \<open>A table that one iteration leaves alone, with its flag \<open>False\<close>, is a fixed point of
  the call: with a positive budget the call runs that one iteration and returns the
  table as it was. What claim C5 needs beyond this is that the flag is \<open>False\<close> only when
  the iteration left the table alone.\<close>

lemma fix_run_fixed_point:
  assumes "fix_iteration items avg ps = (Inr False, ps)" and "0 < max_iters"
  shows "fix_run items ps avg max_iters = (Inr 1, ps)"
proof -
  from assms(2) obtain n where "nat max_iters = Suc n"
    by (cases "nat max_iters") auto
  with assms(1) show ?thesis
    by (simp add: fix_run_def)
qed

lemma fix_run_main_fixed_point:
  assumes "fix_iteration_main items avg ps None = (Inr (False, fl), ps)" and "0 < max_iters"
  shows "fix_run_main items ps avg max_iters = (Inr 1, ps)"
proof -
  from assms(2) obtain n where "nat max_iters = Suc n"
    by (cases "nat max_iters") auto
  with assms(1) show ?thesis
    by (simp add: fix_run_main_def)
qed

text \<open>
  Claim C5 at a failing input, in \<^verbatim>\<open>main.py\<close>. With a budget of 10 the first call runs
  one iteration: its last pair raises \<open>casco_basic_200\<close> from 400 to 731 (case 1), the flag
  \<open>changed\<close> stays \<open>False\<close> and the loop exits early. The second call, on the resulting
  table, finds \<open>casco_basic_100\<close> (730) not above \<open>casco_basic_200\<close> (731), applies the
  deductible schedule and writes 657: it mutates the table and runs two iterations.
\<close>

theorem early_exit_rerun_mutates:
  "fix_run_main
     [element ''limited_casco_comfort_500'' ''limited_casco'' ''comfort'' 500,
      element ''casco_basic_100'' ''casco'' ''basic'' 100,
      element ''casco_basic_200'' ''casco'' ''basic'' 200,
      element ''limited_casco_basic_200'' ''limited_casco'' ''basic'' 200]
     [(''limited_casco_comfort_500'', 300), (''casco_basic_100'', 730),
      (''casco_basic_200'', 400), (''limited_casco_basic_200'', 650)] example_avg_prices 10
   = (Inr 1, [(''limited_casco_comfort_500'', 300), (''casco_basic_100'', 730),
              (''casco_basic_200'', 731), (''limited_casco_basic_200'', 650)])
   \<and> fix_run_main
     [element ''limited_casco_comfort_500'' ''limited_casco'' ''comfort'' 500,
      element ''casco_basic_100'' ''casco'' ''basic'' 100,
      element ''casco_basic_200'' ''casco'' ''basic'' 200,
      element ''limited_casco_basic_200'' ''limited_casco'' ''basic'' 200]
     [(''limited_casco_comfort_500'', 300), (''casco_basic_100'', 730),
      (''casco_basic_200'', 731), (''limited_casco_basic_200'', 650)] example_avg_prices 10
   = (Inr 2, [(''limited_casco_comfort_500'', 300), (''casco_basic_100'', 730),
              (''casco_basic_200'', 657), (''limited_casco_basic_200'', 650)])"
  by code_simp

section \<open>The schedules and monotonicity per axis\<close>

lemma py_round_cases:
  obtains (down) "py_round x = \<lfloor>x\<rfloor>" "x - of_int \<lfloor>x\<rfloor> \<le> 1 / 2"
  | (up) "py_round x = \<lfloor>x\<rfloor> + 1" "1 / 2 \<le> x - of_int \<lfloor>x\<rfloor>"
proof (cases "x - of_int \<lfloor>x\<rfloor> < 1 / 2")
  case True
  then show ?thesis by (intro down) (simp_all add: py_round_def)
next
  case False
  show ?thesis
  proof (cases "1 / 2 < x - of_int \<lfloor>x\<rfloor>")
    case True
    with False show ?thesis by (intro up) (simp_all add: py_round_def)
  next
    case F: False
    with False have eq: "x - of_int \<lfloor>x\<rfloor> = 1 / 2" by simp
    show ?thesis
    proof (cases "even \<lfloor>x\<rfloor>")
      case True
      with eq show ?thesis by (intro down) (simp_all add: py_round_def)
    next
      case False
      with eq show ?thesis by (intro up) (simp_all add: py_round_def)
    qed
  qed
qed

lemma py_round_upper: "of_int (py_round x) \<le> x + 1 / 2"
proof (cases x rule: py_round_cases)
  case down
  have "(of_int \<lfloor>x\<rfloor> :: rat) \<le> x" by (rule of_int_floor_le)
  then show ?thesis unfolding down(1) by linarith
next
  case up
  then show ?thesis by simp
qed

lemma py_round_lower: "x - 1 / 2 \<le> of_int (py_round x)"
proof (cases x rule: py_round_cases)
  case down
  then show ?thesis by simp
next
  case up
  have "x < of_int \<lfloor>x\<rfloor> + 1" by linarith
  then show ?thesis unfolding up(1) by simp
qed

lemma py_round_mono:
  assumes "x \<le> y"
  shows "py_round x \<le> py_round y"
proof (rule ccontr)
  assume "\<not> py_round x \<le> py_round y"
  then have "py_round y + 1 \<le> py_round x" by simp
  then have "(of_int (py_round y) :: rat) + 1 \<le> of_int (py_round x)"
    by (metis of_int_1 of_int_add of_int_le_iff)
  with py_round_upper [of x] py_round_lower [of y] assms have "x = y"
    by linarith
  with \<open>\<not> py_round x \<le> py_round y\<close> show False by simp
qed




lemma variant_rank_pos: "get_variant_rank v = Inr r \<Longrightarrow> 1 \<le> r"
  by (auto simp: get_variant_rank_def variants_rank_def split: option.splits if_splits)

lemma deductible_rank_pos: "get_deductible_rank d = Inr r \<Longrightarrow> 1 \<le> r"
  by (auto simp: get_deductible_rank_def deductables_rank_def split: option.splits if_splits)

lemma variant_price_mono:
  assumes "0 \<le> base" "1 \<le> r1" "r1 \<le> r2"
  shows "variant_price base r1 \<le> variant_price base r2"
proof -
  have "nat (r1 - 1) \<le> nat (r2 - 1)" using assms by simp
  then have "(107 / 100 :: rat) ^ nat (r1 - 1) \<le> (107 / 100) ^ nat (r2 - 1)"
    by (intro power_increasing) simp_all
  moreover have "(0 :: rat) \<le> of_int base" using assms by simp
  ultimately have "of_int base * (107 / 100 :: rat) ^ nat (r1 - 1)
                   \<le> of_int base * (107 / 100) ^ nat (r2 - 1)"
    by (rule mult_left_mono)
  then show ?thesis
    unfolding variant_price_def by (rule py_round_mono)
qed

lemma deductible_price_antimono:
  assumes "0 \<le> base" "1 \<le> r1" "r1 \<le> r2"
  shows "deductible_price base r2 \<le> deductible_price base r1"
proof -
  have "nat (r1 - 1) \<le> nat (r2 - 1)" using assms by simp
  then have "(9 / 10 :: rat) ^ nat (r2 - 1) \<le> (9 / 10) ^ nat (r1 - 1)"
    by (intro power_decreasing) simp_all
  moreover have "(0 :: rat) \<le> of_int base" using assms by simp
  ultimately have "of_int base * (9 / 10 :: rat) ^ nat (r2 - 1)
                   \<le> of_int base * (9 / 10) ^ nat (r1 - 1)"
    by (rule mult_left_mono)
  then show ?thesis
    unfolding deductible_price_def by (rule py_round_mono)
qed

lemma map_of_dict_set: "map_of (dict_set ps k v) = (map_of ps)(k \<mapsto> v)"
  by (simp add: dict_set_def update_conv')

lemma dict_get_Inr: "dict_get ps k = Inr v \<longleftrightarrow> map_of ps k = Some v"
  by (simp add: dict_get_def split: option.splits)

lemma variant_schedule_loop_frame:
  "variant_schedule_loop its ps base c = (r, ps') \<Longrightarrow> k \<notin> key ` set its
   \<Longrightarrow> map_of ps' k = map_of ps k"
proof (induction its arbitrary: ps c)
  case Nil
  then show ?case by simp
next
  case (Cons it its)
  then show ?case
    by (fastforce simp: Let_def map_of_dict_set split: if_splits elim!: eval_inE)
qed

lemma variant_schedule_loop_post:
  "variant_schedule_loop its ps base c = (Inr c', ps') \<Longrightarrow> distinct (map key its)
   \<Longrightarrow> it \<in> set its
   \<Longrightarrow> \<exists>r. get_variant_rank (variant it) = Inr r \<and> map_of ps' (key it) = Some (variant_price base r)"
proof (induction its arbitrary: ps c)
  case Nil
  then show ?case by simp
next
  case (Cons x xs)
  from Cons.prems(1) obtain r cur where
    r: "get_variant_rank (variant x) = Inr r" and
    cur: "dict_get ps (key x) = Inr cur" and
    run: "(if variant_price base r \<noteq> cur
           then variant_schedule_loop xs (dict_set ps (key x) (variant_price base r)) base True
           else variant_schedule_loop xs ps base c) = (Inr c', ps')"
    by (auto simp: Let_def elim!: eval_inE)
  define ps1 where "ps1 = (if variant_price base r \<noteq> cur then dict_set ps (key x) (variant_price base r) else ps)"
  define c1 where "c1 = (variant_price base r \<noteq> cur \<or> c)"
  have rest: "variant_schedule_loop xs ps1 base c1 = (Inr c', ps')"
    using run by (auto simp: ps1_def c1_def split: if_splits)
  have at_x: "map_of ps1 (key x) = Some (variant_price base r)"
    using cur by (auto simp: ps1_def map_of_dict_set dict_get_Inr)
  show ?case
  proof (cases "it = x")
    case True
    from Cons.prems(2) have "key x \<notin> key ` set xs" by auto
    from variant_schedule_loop_frame [OF rest this] at_x r True show ?thesis by simp
  next
    case False
    with Cons.prems have "it \<in> set xs" "distinct (map key xs)" by auto
    from Cons.IH [OF rest this(2) this(1)] show ?thesis .
  qed
qed

lemma deductible_schedule_loop_frame:
  "deductible_schedule_loop its ps base c = (r, ps') \<Longrightarrow> k \<notin> key ` set its
   \<Longrightarrow> map_of ps' k = map_of ps k"
proof (induction its arbitrary: ps c)
  case Nil
  then show ?case by simp
next
  case (Cons it its)
  then show ?case
    by (fastforce simp: Let_def map_of_dict_set split: if_splits elim!: eval_inE)
qed

lemma deductible_schedule_loop_post:
  "deductible_schedule_loop its ps base c = (Inr c', ps') \<Longrightarrow> distinct (map key its)
   \<Longrightarrow> it \<in> set its
   \<Longrightarrow> \<exists>r. get_deductible_rank (deductible it) = Inr r \<and> map_of ps' (key it) = Some (deductible_price base r)"
proof (induction its arbitrary: ps c)
  case Nil
  then show ?case by simp
next
  case (Cons x xs)
  from Cons.prems(1) obtain r cur where
    r: "get_deductible_rank (deductible x) = Inr r" and
    cur: "dict_get ps (key x) = Inr cur" and
    run: "(if deductible_price base r \<noteq> cur
           then deductible_schedule_loop xs (dict_set ps (key x) (deductible_price base r)) base True
           else deductible_schedule_loop xs ps base c) = (Inr c', ps')"
    by (auto simp: Let_def elim!: eval_inE)
  define ps1 where "ps1 = (if deductible_price base r \<noteq> cur then dict_set ps (key x) (deductible_price base r) else ps)"
  define c1 where "c1 = (deductible_price base r \<noteq> cur \<or> c)"
  have rest: "deductible_schedule_loop xs ps1 base c1 = (Inr c', ps')"
    using run by (auto simp: ps1_def c1_def split: if_splits)
  have at_x: "map_of ps1 (key x) = Some (deductible_price base r)"
    using cur by (auto simp: ps1_def map_of_dict_set dict_get_Inr)
  show ?case
  proof (cases "it = x")
    case True
    from Cons.prems(2) have "key x \<notin> key ` set xs" by auto
    from deductible_schedule_loop_frame [OF rest this] at_x r True show ?thesis by simp
  next
    case False
    with Cons.prems have "it \<in> set xs" "distinct (map key xs)" by auto
    from Cons.IH [OF rest this(2) this(1)] show ?thesis .
  qed
qed

lemma deductible_loop_main_Some:
  "deductible_loop_main its ps (Some base) c = deductible_schedule_loop its ps base c"
  by (induction its arbitrary: ps c) (auto simp: Let_def intro!: eval_in_cong)

text \<open>Each time the repair loop applies a schedule to a group whose keys are distinct,
  with a base price that is not negative, the prices of that group are monotone right
  after, in either revision.\<close>

lemma schedules_leave_group_monotone:
  assumes "distinct (map key grp)" and "0 \<le> base"
  shows "(variant_schedule_loop grp ps base c = (Inr c', ps') \<longrightarrow> variant_monotone grp ps')
       \<and> (deductible_schedule_loop grp ps base c = (Inr c', ps') \<longrightarrow> deductible_monotone grp ps')
       \<and> (deductible_loop_main grp ps (Some base) c = (Inr c', ps') \<longrightarrow> deductible_monotone grp ps')"
proof -
  have v: "variant_monotone grp ps'" if run: "variant_schedule_loop grp ps base c = (Inr c', ps')"
    unfolding variant_monotone_def
  proof (intro ballI impI)
    fix a b
    assume a: "a \<in> set grp" and b: "b \<in> set grp"
    from variant_schedule_loop_post [OF run assms(1) a] obtain ra where
      ra: "get_variant_rank (variant a) = Inr ra" "map_of ps' (key a) = Some (variant_price base ra)"
      by blast
    from variant_schedule_loop_post [OF run assms(1) b] obtain rb where
      rb: "get_variant_rank (variant b) = Inr rb" "map_of ps' (key b) = Some (variant_price base rb)"
      by blast
    from variant_rank_pos [OF ra(1)] variant_price_mono [OF assms(2), of ra rb]
    have "ra < rb \<longrightarrow> variant_price base ra \<le> variant_price base rb" by simp
    with ra rb show "case (get_variant_rank (variant a), get_variant_rank (variant b),
               map_of ps' (key a), map_of ps' (key b)) of
           (Inr ra, Inr rb, Some price_a, Some price_b) \<Rightarrow> ra < rb \<longrightarrow> price_a \<le> price_b
         | _ \<Rightarrow> True"
      by simp
  qed
  have d: "deductible_monotone grp ps'" if run: "deductible_schedule_loop grp ps base c = (Inr c', ps')"
    unfolding deductible_monotone_def
  proof (intro ballI impI)
    fix a b
    assume a: "a \<in> set grp" and b: "b \<in> set grp"
    from deductible_schedule_loop_post [OF run assms(1) a] obtain ra where
      ra: "get_deductible_rank (deductible a) = Inr ra" "map_of ps' (key a) = Some (deductible_price base ra)"
      by blast
    from deductible_schedule_loop_post [OF run assms(1) b] obtain rb where
      rb: "get_deductible_rank (deductible b) = Inr rb" "map_of ps' (key b) = Some (deductible_price base rb)"
      by blast
    from deductible_rank_pos [OF ra(1)] deductible_price_antimono [OF assms(2), of ra rb]
    have "ra < rb \<longrightarrow> deductible_price base rb \<le> deductible_price base ra" by simp
    with ra rb show "case (get_deductible_rank (deductible a), get_deductible_rank (deductible b),
               map_of ps' (key a), map_of ps' (key b)) of
           (Inr ra, Inr rb, Some price_a, Some price_b) \<Rightarrow> ra < rb \<longrightarrow> price_b \<le> price_a
         | _ \<Rightarrow> True"
      by simp
  qed
  from v d show ?thesis
    by (simp add: deductible_loop_main_Some)
qed

subsection \<open>Tables on which no correction is left\<close>

text \<open>When no pair triggers a correction, the scan returns the table and the flag as
  they are, and so does the call.\<close>

lemma scan_pairs_cover:
  "a \<in> set xs \<Longrightarrow> b \<in> set xs \<Longrightarrow> a \<noteq> b
   \<Longrightarrow> (a, b) \<in> set (scan_pairs xs) \<or> (b, a) \<in> set (scan_pairs xs)"
  by (induction xs) auto

lemma inner_loop_noop:
  "(\<And>b. b \<in> set bs \<Longrightarrow> step a b v ps = (Inr v, ps)) \<Longrightarrow> inner_loop step a bs v ps = (Inr v, ps)"
  by (induction bs) simp_all

lemma outer_loop_noop:
  "(\<And>a b. (a, b) \<in> set (scan_pairs xs) \<Longrightarrow> step a b v ps = (Inr v, ps))
   \<Longrightarrow> outer_loop step xs v ps = (Inr v, ps)"
proof (induction xs)
  case Nil
  then show ?case by simp
next
  case (Cons a rest)
  have "inner_loop step a rest v ps = (Inr v, ps)"
    by (rule inner_loop_noop) (simp add: Cons.prems)
  moreover have "outer_loop step rest v ps = (Inr v, ps)"
    by (rule Cons.IH) (simp add: Cons.prems)
  ultimately show ?case by simp
qed

lemma no_correction_left_iteration:
  assumes "no_correction_left items avg ps"
  shows "fix_iteration items avg ps = (Inr False, ps)"
proof -
  have "outer_loop (fix_pair items avg) items False ps = (Inr False, ps)"
  proof (rule outer_loop_noop)
    fix a b
    assume "(a, b) \<in> set (scan_pairs items)"
    with assms show "fix_pair items avg a b False ps = (Inr False, ps)"
      by (auto simp: no_correction_left_def)
  qed
  then show ?thesis
    by (simp add: fix_iteration_def)
qed

lemma no_correction_left_call:
  assumes "no_correction_left items avg ps"
  shows "fix_products_inplace items ps avg max_iters = (Inr (), ps)"
proof (cases "nat max_iters")
  case 0
  then show ?thesis
    by (simp add: fix_products_inplace_def fix_run_def)
next
  case (Suc n)
  with no_correction_left_iteration [OF assms] show ?thesis
    by (simp add: fix_products_inplace_def fix_run_def)
qed

lemma deductible_schedule_loop_unflagged:
  "deductible_schedule_loop grp ps base False = (Inr False, ps') \<Longrightarrow> it \<in> set grp
   \<Longrightarrow> \<exists>r. get_deductible_rank (deductible it) = Inr r
          \<and> map_of ps (key it) = Some (deductible_price base r)"
proof (induction grp)
  case Nil
  then show ?case by simp
next
  case (Cons x xs)
  from Cons.prems(1) obtain r cur where
    r: "get_deductible_rank (deductible x) = Inr r" and
    cur: "dict_get ps (key x) = Inr cur" and
    run: "(if deductible_price base r \<noteq> cur
           then deductible_schedule_loop xs (dict_set ps (key x) (deductible_price base r)) base True
           else deductible_schedule_loop xs ps base False) = (Inr False, ps')"
    by (auto simp: Let_def elim!: eval_inE)
  have same: "deductible_price base r = cur"
  proof (rule ccontr)
    assume "deductible_price base r \<noteq> cur"
    with run have "deductible_schedule_loop xs (dict_set ps (key x) (deductible_price base r)) base True
        = (Inr False, ps')" by simp
    from deductible_schedule_loop_flag [OF this] show False by simp
  qed
  with run have rest: "deductible_schedule_loop xs ps base False = (Inr False, ps')" by simp
  show ?case
  proof (cases "it = x")
    case True
    with r cur same show ?thesis by (simp add: dict_get_Inr)
  next
    case False
    with Cons.prems(2) have "it \<in> set xs" by simp
    from Cons.IH [OF rest this] show ?thesis .
  qed
qed

lemma variant_schedule_loop_unflagged:
  "variant_schedule_loop grp ps base False = (Inr False, ps') \<Longrightarrow> it \<in> set grp
   \<Longrightarrow> \<exists>r. get_variant_rank (variant it) = Inr r
          \<and> map_of ps (key it) = Some (variant_price base r)"
proof (induction grp)
  case Nil
  then show ?case by simp
next
  case (Cons x xs)
  from Cons.prems(1) obtain r cur where
    r: "get_variant_rank (variant x) = Inr r" and
    cur: "dict_get ps (key x) = Inr cur" and
    run: "(if variant_price base r \<noteq> cur
           then variant_schedule_loop xs (dict_set ps (key x) (variant_price base r)) base True
           else variant_schedule_loop xs ps base False) = (Inr False, ps')"
    by (auto simp: Let_def elim!: eval_inE)
  have same: "variant_price base r = cur"
  proof (rule ccontr)
    assume "variant_price base r \<noteq> cur"
    with run have "variant_schedule_loop xs (dict_set ps (key x) (variant_price base r)) base True
        = (Inr False, ps')" by simp
    from variant_schedule_loop_flag [OF this] show False by simp
  qed
  with run have rest: "variant_schedule_loop xs ps base False = (Inr False, ps')" by simp
  show ?case
  proof (cases "it = x")
    case True
    with r cur same show ?thesis by (simp add: dict_get_Inr)
  next
    case False
    with Cons.prems(2) have "it \<in> set xs" by simp
    from Cons.IH [OF rest this] show ?thesis .
  qed
qed

lemma max_price_loop_anchor:
  assumes "max_price_loop its ps predicate mx = Inr r"
    and "(\<exists>it \<in> set its. predicate it = Inr True \<and> nonneg_price ps it) \<or> (\<exists>m\<ge>0. mx = Some m)"
  shows "\<exists>bs\<ge>0. r = Some bs"
  using assms
proof (induction its arbitrary: mx)
  case Nil
  then show ?case by auto
next
  case (Cons x xs)
  from Cons.prems(1) obtain holds where h: "predicate x = Inr holds"
    and run: "(if holds then
         bind (dict_get ps (key x)) (\<lambda>p.
           max_price_loop xs ps predicate (Some (case mx of None \<Rightarrow> p | Some m \<Rightarrow> max m p)))
       else max_price_loop xs ps predicate mx) = Inr r"
    by (auto simp: bind_eq_Inr)
  show ?case
  proof (cases holds)
    case False
    with run have rest: "max_price_loop xs ps predicate mx = Inr r" by simp
    from Cons.prems(2) h False
    have "(\<exists>it \<in> set xs. predicate it = Inr True \<and> nonneg_price ps it) \<or> (\<exists>m\<ge>0. mx = Some m)"
      by auto
    from Cons.IH [OF rest this] show ?thesis .
  next
    case True
    with run obtain p where p: "dict_get ps (key x) = Inr p"
      and rest: "max_price_loop xs ps predicate (Some (case mx of None \<Rightarrow> p | Some m \<Rightarrow> max m p)) = Inr r"
      by (auto simp: bind_eq_Inr)
    have "(\<exists>it \<in> set xs. predicate it = Inr True \<and> nonneg_price ps it)
          \<or> (\<exists>m\<ge>0. Some (case mx of None \<Rightarrow> p | Some m \<Rightarrow> max m p) = Some m)"
    proof (cases "\<exists>it \<in> set xs. predicate it = Inr True \<and> nonneg_price ps it")
      case True
      then show ?thesis by simp
    next
      case False
      with Cons.prems(2) have "nonneg_price ps x \<or> (\<exists>m\<ge>0. mx = Some m)" by auto
      with p have "0 \<le> (case mx of None \<Rightarrow> p | Some m \<Rightarrow> max m p)"
        by (auto simp: nonneg_price_def dict_get_Inr split: option.splits)
      then show ?thesis by simp
    qed
    from Cons.IH [OF rest this] show ?thesis .
  qed
qed


lemma rank_unless_core_False:
  "rank_unless_core False m = Inr x \<longleftrightarrow> (\<exists>r. m = Inr r \<and> x = Some r)"
  by (auto simp: rank_unless_core_def bind_eq_Inr)

lemma fix_pair_equal_rank:
  assumes step: "fix_pair items avg a b c ps = (Inr c', ps')"
    and same: "product a = product b" and nc: "product a \<notin> core_product"
  obtains va vb da db where
    "get_variant_rank (variant a) = Inr va" "get_variant_rank (variant b) = Inr vb"
    "get_deductible_rank (deductible a) = Inr da" "get_deductible_rank (deductible b) = Inr db"
    "then_do (if va = vb \<and> da \<noteq> db then fix_deductible items a b (Some da) (Some db) c ps
              else (Inr c, ps))
        (\<lambda>c1 ps1. if da = db \<and> va \<noteq> vb then fix_variant items a b (Some va) (Some vb) c1 ps1
              else (Inr c1, ps1)) = (Inr c', ps')"
proof -
  have core: "\<not> is_core_product (product a)" "\<not> is_core_product (product b)"
    using same nc by (simp_all add: is_core_product_def)
  from step obtain pa where pa: "get_product_rank (product a) = Inr pa"
    by (auto simp: fix_pair_def elim!: eval_inE)
  with same have pb: "get_product_rank (product b) = Inr pa" by simp
  from step pa pb core obtain va vb da db where
    r: "get_variant_rank (variant a) = Inr va" "get_variant_rank (variant b) = Inr vb"
       "get_deductible_rank (deductible a) = Inr da" "get_deductible_rank (deductible b) = Inr db"
    by (auto simp: fix_pair_def Let_def rank_unless_core_False elim!: eval_inE)
  have ru: "rank_unless_core False (get_variant_rank (variant a)) = Inr (Some va)"
      "rank_unless_core False (get_variant_rank (variant b)) = Inr (Some vb)"
      "rank_unless_core False (get_deductible_rank (deductible a)) = Inr (Some da)"
      "rank_unless_core False (get_deductible_rank (deductible b)) = Inr (Some db)"
    using r by (simp_all add: rank_unless_core_False)
  from step pa pb core ru
  have "then_do (if va = vb \<and> da \<noteq> db then fix_deductible items a b (Some da) (Some db) c ps
              else (Inr c, ps))
        (\<lambda>c1 ps1. if da = db \<and> va \<noteq> vb then fix_variant items a b (Some va) (Some vb) c1 ps1
              else (Inr c1, ps1)) = (Inr c', ps')"
    by (auto simp: fix_pair_def Let_def elim!: eval_inE)
  with r show ?thesis by (rule that)
qed

lemma or_changed_False:
  "or_changed False q = (Inr False, ps') \<Longrightarrow> q = (Inr False, ps')"
  by (auto simp: or_changed_def elim!: then_doE)

lemma fix_deductible_unflagged:
  assumes run: "fix_deductible items a b (Some da) (Some db) False ps = (Inr False, ps)"
    and mem: "a \<in> set items" "b \<in> set items"
    and same: "product b = product a" "variant b = variant a" and nc: "product a \<notin> core_product"
    and ranks: "get_deductible_rank (deductible a) = Inr da" "get_deductible_rank (deductible b) = Inr db"
    and anchor: "\<exists>it \<in> set items. product it = product a \<and> variant it = variant a
            \<and> get_deductible_rank (deductible it) = Inr 1 \<and> nonneg_price ps it"
  shows "\<exists>pa pb. map_of ps (key a) = Some pa \<and> map_of ps (key b) = Some pb
           \<and> (da < db \<longrightarrow> pb \<le> pa) \<and> (db < da \<longrightarrow> pa \<le> pb)"
proof -
  let ?grp = "group_items items (\<lambda>it. product it = product a \<and> \<not> is_core_product (product it)
                        \<and> variant it = variant a)"
  let ?pred = "\<lambda>it. bind (get_deductible_rank (deductible it)) (\<lambda>r. Inr (r = 1))"
  define lower_d where "lower_d = (if da < db then a else b)"
  define higher_d where "higher_d = (if da < db then b else a)"
  from run obtain lp hp where
    lp: "dict_get ps (key lower_d) = Inr lp" and hp: "dict_get ps (key higher_d) = Inr hp" and
    body: "(if lp \<le> hp then
             eval_in ps (max_price_in_group ?grp ps ?pred)
               (\<lambda>base. case base of None \<Rightarrow> (Inr False, ps)
                   | Some bs \<Rightarrow> or_changed False (apply_deductible_schedule ?grp ps bs))
           else (Inr False, ps)) = (Inr False, ps)"
    by (auto simp: fix_deductible_def opt_less_def Let_def lower_d_def higher_d_def
             split: if_splits elim!: eval_inE)
  have prices: "map_of ps (key lower_d) = Some lp" "map_of ps (key higher_d) = Some hp"
    using lp hp by (simp_all add: dict_get_Inr)
  have goal: "hp \<le> lp"
  proof (cases "lp \<le> hp")
    case False
    then show ?thesis by simp
  next
    case True
    with body obtain base where mx: "max_price_in_group ?grp ps ?pred = Inr base"
      and after: "(case base of None \<Rightarrow> (Inr False, ps)
                   | Some bs \<Rightarrow> or_changed False (apply_deductible_schedule ?grp ps bs)) = (Inr False, ps)"
      by (auto elim!: eval_inE)
    from anchor nc have "\<exists>it \<in> set ?grp. ?pred it = Inr True \<and> nonneg_price ps it"
      by (auto simp: group_items_def is_core_product_def)
    then have "(\<exists>it \<in> set ?grp. ?pred it = Inr True \<and> nonneg_price ps it) \<or> (\<exists>m\<ge>0. None = Some m)"
      by simp
    from max_price_loop_anchor [OF mx [unfolded max_price_in_group_def] this]
    obtain bs where bs: "0 \<le> bs" "base = Some bs" by blast
    with after have "or_changed False (apply_deductible_schedule ?grp ps bs) = (Inr False, ps)"
      by simp
    then have loop: "deductible_schedule_loop ?grp ps bs False = (Inr False, ps)"
      by (auto dest!: or_changed_False simp: apply_deductible_schedule_def)
    have "a \<in> set ?grp" "b \<in> set ?grp"
      using mem same nc by (simp_all add: group_items_def is_core_product_def)
    from deductible_schedule_loop_unflagged [OF loop this(1)]
         deductible_schedule_loop_unflagged [OF loop this(2)] ranks
    have pa: "map_of ps (key a) = Some (deductible_price bs da)"
      and pb: "map_of ps (key b) = Some (deductible_price bs db)"
      by auto
    show ?thesis
    proof (cases "da < db")
      case True
      with prices pa pb have "lp = deductible_price bs da" "hp = deductible_price bs db"
        by (simp_all add: lower_d_def higher_d_def)
      with deductible_price_antimono [OF bs(1) deductible_rank_pos [OF ranks(1)], of db] True
      show ?thesis by simp
    next
      case False
      with prices pa pb have "lp = deductible_price bs db" "hp = deductible_price bs da"
        by (simp_all add: lower_d_def higher_d_def)
      moreover have "deductible_price bs da \<le> deductible_price bs db"
      proof (cases "da = db")
        case True
        then show ?thesis by simp
      next
        case F: False
        with False have "db \<le> da" by simp
        from deductible_price_antimono [OF bs(1) deductible_rank_pos [OF ranks(2)] this]
        show ?thesis .
      qed
      ultimately show ?thesis by simp
    qed
  qed
  show ?thesis
  proof (cases "da < db")
    case True
    with prices goal show ?thesis by (auto simp: lower_d_def higher_d_def)
  next
    case False
    with prices goal show ?thesis by (auto simp: lower_d_def higher_d_def)
  qed
qed


lemma fix_variant_unflagged:
  assumes run: "fix_variant items a b (Some va) (Some vb) False ps = (Inr False, ps)"
    and mem: "a \<in> set items" "b \<in> set items"
    and same: "product b = product a" "deductible b = deductible a" and nc: "product a \<notin> core_product"
    and ranks: "get_variant_rank (variant a) = Inr va" "get_variant_rank (variant b) = Inr vb"
    and anchor: "\<exists>it \<in> set items. product it = product a \<and> deductible it = deductible a
            \<and> get_variant_rank (variant it) = Inr 1 \<and> nonneg_price ps it"
  shows "\<exists>pa pb. map_of ps (key a) = Some pa \<and> map_of ps (key b) = Some pb
           \<and> (va < vb \<longrightarrow> pa \<le> pb) \<and> (vb < va \<longrightarrow> pb \<le> pa)"
proof -
  let ?grp = "group_items items (\<lambda>it. product it = product a \<and> \<not> is_core_product (product it)
                        \<and> deductible it = deductible a)"
  let ?pred = "\<lambda>it. bind (get_variant_rank (variant it)) (\<lambda>r. Inr (r = 1))"
  define lower_v where "lower_v = (if va < vb then a else b)"
  define higher_v where "higher_v = (if va < vb then b else a)"
  from run obtain lp hp where
    lp: "dict_get ps (key lower_v) = Inr lp" and hp: "dict_get ps (key higher_v) = Inr hp" and
    body: "(if lp \<ge> hp then
             eval_in ps (max_price_in_group ?grp ps ?pred)
               (\<lambda>base. case base of None \<Rightarrow> (Inr False, ps)
                   | Some bs \<Rightarrow> or_changed False (apply_variant_schedule ?grp ps bs))
           else (Inr False, ps)) = (Inr False, ps)"
    by (auto simp: fix_variant_def opt_less_def Let_def lower_v_def higher_v_def
             split: if_splits elim!: eval_inE)
  have prices: "map_of ps (key lower_v) = Some lp" "map_of ps (key higher_v) = Some hp"
    using lp hp by (simp_all add: dict_get_Inr)
  have goal: "lp \<le> hp"
  proof (cases "lp \<ge> hp")
    case False
    then show ?thesis by simp
  next
    case True
    with body obtain base where mx: "max_price_in_group ?grp ps ?pred = Inr base"
      and after: "(case base of None \<Rightarrow> (Inr False, ps)
                   | Some bs \<Rightarrow> or_changed False (apply_variant_schedule ?grp ps bs)) = (Inr False, ps)"
      by (auto elim!: eval_inE)
    from anchor nc have "\<exists>it \<in> set ?grp. ?pred it = Inr True \<and> nonneg_price ps it"
      by (auto simp: group_items_def is_core_product_def)
    then have "(\<exists>it \<in> set ?grp. ?pred it = Inr True \<and> nonneg_price ps it) \<or> (\<exists>m\<ge>0. None = Some m)"
      by simp
    from max_price_loop_anchor [OF mx [unfolded max_price_in_group_def] this]
    obtain bs where bs: "0 \<le> bs" "base = Some bs" by blast
    with after have "or_changed False (apply_variant_schedule ?grp ps bs) = (Inr False, ps)"
      by simp
    then have loop: "variant_schedule_loop ?grp ps bs False = (Inr False, ps)"
      by (auto dest!: or_changed_False simp: apply_variant_schedule_def)
    have "a \<in> set ?grp" "b \<in> set ?grp"
      using mem same nc by (simp_all add: group_items_def is_core_product_def)
    from variant_schedule_loop_unflagged [OF loop this(1)]
         variant_schedule_loop_unflagged [OF loop this(2)] ranks
    have pa: "map_of ps (key a) = Some (variant_price bs va)"
      and pb: "map_of ps (key b) = Some (variant_price bs vb)"
      by auto
    show ?thesis
    proof (cases "va < vb")
      case True
      with prices pa pb have "lp = variant_price bs va" "hp = variant_price bs vb"
        by (simp_all add: lower_v_def higher_v_def)
      with variant_price_mono [OF bs(1) variant_rank_pos [OF ranks(1)], of vb] True
      show ?thesis by simp
    next
      case False
      with prices pa pb have "lp = variant_price bs vb" "hp = variant_price bs va"
        by (simp_all add: lower_v_def higher_v_def)
      moreover have "variant_price bs vb \<le> variant_price bs va"
      proof (cases "va = vb")
        case True
        then show ?thesis by simp
      next
        case F: False
        with False have "vb \<le> va" by simp
        from variant_price_mono [OF bs(1) variant_rank_pos [OF ranks(2)] this]
        show ?thesis .
      qed
      ultimately show ?thesis by simp
    qed
  qed
  show ?thesis
  proof (cases "va < vb")
    case True
    with prices goal show ?thesis by (auto simp: lower_v_def higher_v_def)
  next
    case False
    with prices goal show ?thesis by (auto simp: lower_v_def higher_v_def)
  qed
qed

text \<open>Two items of one variant group, at a pair that the scan visits.\<close>

lemma pair_deductible_order:
  assumes step: "fix_pair items avg a b False ps = (Inr False, ps)"
    and mem: "a \<in> set items" "b \<in> set items"
    and same: "product a = product b" "variant a = variant b" and nc: "product a \<notin> core_product"
    and ranks: "get_deductible_rank (deductible a) = Inr da" "get_deductible_rank (deductible b) = Inr db"
    and ne: "da \<noteq> db"
    and anchor: "\<exists>it \<in> set items. product it = product a \<and> variant it = variant a
            \<and> get_deductible_rank (deductible it) = Inr 1 \<and> nonneg_price ps it"
  shows "\<exists>pa pb. map_of ps (key a) = Some pa \<and> map_of ps (key b) = Some pb
           \<and> (da < db \<longrightarrow> pb \<le> pa) \<and> (db < da \<longrightarrow> pa \<le> pb)"
proof -
  from step same(1) nc obtain va vb da' db' where
    r: "get_variant_rank (variant a) = Inr va" "get_variant_rank (variant b) = Inr vb"
       "get_deductible_rank (deductible a) = Inr da'" "get_deductible_rank (deductible b) = Inr db'"
    and t: "then_do (if va = vb \<and> da' \<noteq> db' then fix_deductible items a b (Some da') (Some db') False ps
              else (Inr False, ps))
        (\<lambda>c1 ps1. if da' = db' \<and> va \<noteq> vb then fix_variant items a b (Some va) (Some vb) c1 ps1
              else (Inr c1, ps1)) = (Inr False, ps)"
    by (rule fix_pair_equal_rank)
  from r ranks same(2) have eq: "da' = da" "db' = db" "va = vb" by simp_all
  with t ne have "fix_deductible items a b (Some da) (Some db) False ps = (Inr False, ps)"
    by (auto elim!: then_doE)
  from fix_deductible_unflagged [OF this mem same(1) [symmetric] same(2) [symmetric] nc ranks anchor]
  show ?thesis .
qed

lemma pair_variant_order:
  assumes step: "fix_pair items avg a b False ps = (Inr False, ps)"
    and mem: "a \<in> set items" "b \<in> set items"
    and same: "product a = product b" "deductible a = deductible b" and nc: "product a \<notin> core_product"
    and ranks: "get_variant_rank (variant a) = Inr va" "get_variant_rank (variant b) = Inr vb"
    and ne: "va \<noteq> vb"
    and anchor: "\<exists>it \<in> set items. product it = product a \<and> deductible it = deductible a
            \<and> get_variant_rank (variant it) = Inr 1 \<and> nonneg_price ps it"
  shows "\<exists>pa pb. map_of ps (key a) = Some pa \<and> map_of ps (key b) = Some pb
           \<and> (va < vb \<longrightarrow> pa \<le> pb) \<and> (vb < va \<longrightarrow> pb \<le> pa)"
proof -
  from step same(1) nc obtain va' vb' da db where
    r: "get_variant_rank (variant a) = Inr va'" "get_variant_rank (variant b) = Inr vb'"
       "get_deductible_rank (deductible a) = Inr da" "get_deductible_rank (deductible b) = Inr db"
    and t: "then_do (if va' = vb' \<and> da \<noteq> db then fix_deductible items a b (Some da) (Some db) False ps
              else (Inr False, ps))
        (\<lambda>c1 ps1. if da = db \<and> va' \<noteq> vb' then fix_variant items a b (Some va') (Some vb') c1 ps1
              else (Inr c1, ps1)) = (Inr False, ps)"
    by (rule fix_pair_equal_rank)
  from r ranks same(2) have eq: "va' = va" "vb' = vb" "da = db" by simp_all
  with t ne have "fix_variant items a b (Some va) (Some vb) False ps = (Inr False, ps)"
    by (auto elim!: then_doE)
  from fix_variant_unflagged [OF this mem same(1) [symmetric] same(2) [symmetric] nc ranks anchor]
  show ?thesis .
qed

text \<open>When no pair of the scan triggers a correction on a table, a call returns the
  table as it is; if moreover every group of the table is anchored, the table is monotone
  on both axes.\<close>

lemma no_correction_left_monotone:
  assumes scan: "no_correction_left items avg ps" and anch: "anchored items ps"
  shows "fix_products_inplace items ps avg max_iters = (Inr (), ps)
         \<and> deductible_monotone items ps \<and> variant_monotone items ps"
proof -
  have step: "fix_pair items avg a b False ps = (Inr False, ps)"
    if "(a, b) \<in> set (scan_pairs items)" for a b
    using scan that by (auto simp: no_correction_left_def)
  have d: "pb \<le> pa"
    if mem: "a \<in> set items" "b \<in> set items"
      and same: "product a = product b" "variant a = variant b" and nc: "product a \<notin> core_product"
      and ranks: "get_deductible_rank (deductible a) = Inr da" "get_deductible_rank (deductible b) = Inr db"
      and prices: "map_of ps (key a) = Some pa" "map_of ps (key b) = Some pb"
      and lt: "da < db"
    for a b da db pa pb
  proof -
    from lt ranks have "a \<noteq> b" by auto
    from scan_pairs_cover [OF mem this] show ?thesis
    proof
      assume "(a, b) \<in> set (scan_pairs items)"
      from anch mem(1) nc
      have "\<exists>it \<in> set items. product it = product a \<and> variant it = variant a
            \<and> get_deductible_rank (deductible it) = Inr 1 \<and> nonneg_price ps it"
        by (auto simp: anchored_def)
      from pair_deductible_order [OF step [OF \<open>(a, b) \<in> set (scan_pairs items)\<close>] mem same nc ranks _ this]
        lt prices show ?thesis by auto
    next
      assume "(b, a) \<in> set (scan_pairs items)"
      from anch mem(2) nc same
      have "\<exists>it \<in> set items. product it = product b \<and> variant it = variant b
            \<and> get_deductible_rank (deductible it) = Inr 1 \<and> nonneg_price ps it"
        by (auto simp: anchored_def)
      from pair_deductible_order [OF step [OF \<open>(b, a) \<in> set (scan_pairs items)\<close>] mem(2) mem(1)
          same(1) [symmetric] same(2) [symmetric] _ ranks(2) ranks(1) _ this] nc same
        lt prices show ?thesis by auto
    qed
  qed
  have v: "pa \<le> pb"
    if mem: "a \<in> set items" "b \<in> set items"
      and same: "product a = product b" "deductible a = deductible b" and nc: "product a \<notin> core_product"
      and ranks: "get_variant_rank (variant a) = Inr va" "get_variant_rank (variant b) = Inr vb"
      and prices: "map_of ps (key a) = Some pa" "map_of ps (key b) = Some pb"
      and lt: "va < vb"
    for a b va vb pa pb
  proof -
    from lt ranks have "a \<noteq> b" by auto
    from scan_pairs_cover [OF mem this] show ?thesis
    proof
      assume "(a, b) \<in> set (scan_pairs items)"
      from anch mem(1) nc
      have "\<exists>it \<in> set items. product it = product a \<and> deductible it = deductible a
            \<and> get_variant_rank (variant it) = Inr 1 \<and> nonneg_price ps it"
        by (auto simp: anchored_def)
      from pair_variant_order [OF step [OF \<open>(a, b) \<in> set (scan_pairs items)\<close>] mem same nc ranks _ this]
        lt prices show ?thesis by auto
    next
      assume "(b, a) \<in> set (scan_pairs items)"
      from anch mem(2) nc same
      have "\<exists>it \<in> set items. product it = product b \<and> deductible it = deductible b
            \<and> get_variant_rank (variant it) = Inr 1 \<and> nonneg_price ps it"
        by (auto simp: anchored_def)
      from pair_variant_order [OF step [OF \<open>(b, a) \<in> set (scan_pairs items)\<close>] mem(2) mem(1)
          same(1) [symmetric] same(2) [symmetric] _ ranks(2) ranks(1) _ this] nc same
        lt prices show ?thesis by auto
    qed
  qed
  have "deductible_monotone items ps"
    unfolding deductible_monotone_def
    by (auto split: sum.splits option.splits intro: d)
  moreover have "variant_monotone items ps"
    unfolding variant_monotone_def
    by (auto split: sum.splits option.splits intro: v)
  ultimately show ?thesis
    using no_correction_left_call [OF scan] by simp
qed

subsection \<open>Calls that leave the loop before the budget is used up\<close>

text \<open>The items that \<^verbatim>\<open>build_price_items\<close> builds from a table have the keys of the table,
  in its order: one item per key.\<close>

lemma build_item_key: "build_item k = Inr e \<Longrightarrow> key e = k"
  by (auto simp: build_item_def parse_price_key_def Let_def bind_eq_Inr split: if_splits)

lemma build_loop_keys: "build_loop ks acc = Inr items \<Longrightarrow> map key items = map key acc @ ks"
  by (induction ks arbitrary: acc) (auto simp: bind_eq_Inr dest: build_item_key)

lemma build_price_items_keys:
  "build_price_items ps = Inr items \<Longrightarrow> distinct (map fst ps) \<Longrightarrow> distinct (map key items)"
  by (auto simp: build_price_items_def dest: build_loop_keys)



















lemma nonneg_price_cong:
  "map_of ps' (key it) = map_of ps (key it) \<Longrightarrow> nonneg_price ps' it = nonneg_price ps it"
  by (simp add: nonneg_price_def)





text \<open>The theorem is about \<^verbatim>\<open>modified_version.py\<close>. In \<^verbatim>\<open>main.py\<close> the schedule branches
  read the flags that the last pair of different product ranks left behind: after a
  pair with the core product they are skipped. On the table below, anchored and with a
  budget of 10, \<^verbatim>\<open>main.py\<close> returns after one iteration with \<open>casco_basic_200\<close> above
  \<open>casco_basic_100\<close>, where \<^verbatim>\<open>modified_version.py\<close> applies the deductible schedule.\<close>

lemma main_stale_flags_skip_schedule:
  "fix_run_main
     [\<lparr>key = ''mtpl'', product = ''mtpl'', variant = None, deductible = None\<rparr>,
      element ''casco_basic_100'' ''casco'' ''basic'' 100,
      element ''casco_basic_200'' ''casco'' ''basic'' 200]
     [(''mtpl'', 100), (''casco_basic_100'', 400), (''casco_basic_200'', 500)] example_avg_prices 10
   = (Inr 1, [(''mtpl'', 100), (''casco_basic_100'', 400), (''casco_basic_200'', 500)])
   \<and> fix_run
     [\<lparr>key = ''mtpl'', product = ''mtpl'', variant = None, deductible = None\<rparr>,
      element ''casco_basic_100'' ''casco'' ''basic'' 100,
      element ''casco_basic_200'' ''casco'' ''basic'' 200]
     [(''mtpl'', 100), (''casco_basic_100'', 400), (''casco_basic_200'', 500)] example_avg_prices 10
   = (Inr 2, [(''mtpl'', 100), (''casco_basic_100'', 400), (''casco_basic_200'', 360)])"
  by code_simp


section \<open>The detector\<close>

text \<open>
  Claim C6. On the table of scenario 1, \<^verbatim>\<open>build_price_items\<close> followed by
  \<^verbatim>\<open>detect_inconsistencies\<close> returns the one line of the variant rule and nothing else
  (the apostrophe is the character \<open>0x27\<close>).
\<close>

theorem scenario_variant_order_report:
  "bind (build_price_items [(''limited_casco_basic_100'', 900), (''limited_casco_comfort_100'', 850)])
     (\<lambda>items. detect_inconsistencies items
        [(''limited_casco_basic_100'', 900), (''limited_casco_comfort_100'', 850)])
   = Inr (''VARIANT ORDER: '' @ [CHR 0x27] @ ''limited_casco_basic_100'' @ [CHR 0x27]
          @ '' (900) should be cheaper than '' @ [CHR 0x27] @ ''limited_casco_comfort_100''
          @ [CHR 0x27] @ '' (850).'')"
  by code_simp

subsection \<open>The detector reads only\<close>

text \<open>The loops over indices visit the same pairs, in the same order, as the loops over
  the list that define \<open>detect_inconsistencies\<close>.\<close>

lemma detect_inner_st_eq:
  assumes "i < length items" and "k \<le> length items"
  shows "detect_inner_st i [k..<length items] report (items, ps)
         = (detect_inner ps (items ! i) (drop k items) report, (items, ps))"
  using assms(2)
proof (induction "length items - k" arbitrary: k report)
  case 0
  then show ?case by simp
next
  case (Suc m)
  then have k: "k < length items" by simp
  then have u: "[k..<length items] = k # [Suc k..<length items]"
    by (simp add: upt_conv_Cons)
  from k have d: "drop k items = items ! k # drop (Suc k) items"
    by (simp add: Cons_nth_drop_Suc)
  have m: "m = length items - Suc k" using Suc.hyps(2) by simp
  have l: "Suc k \<le> length items" using k by simp
  show ?case
  proof (cases "detect_pair ps (items ! i) (items ! k)")
    case (Inl e)
    then show ?thesis
      unfolding u d by (simp add: detect_pair_st_def)
  next
    case (Inr ls)
    then show ?thesis
      unfolding u d using Suc.hyps(1) [OF m l, of "report @ ls"]
      by (simp add: detect_pair_st_def)
  qed
qed

lemma detect_outer_st_eq:
  assumes "i \<le> length items"
  shows "detect_outer_st [i..<length items] (length items) report (items, ps)
         = (detect_outer ps (drop i items) report, (items, ps))"
  using assms
proof (induction "length items - i" arbitrary: i report)
  case 0
  then show ?case by simp
next
  case (Suc m)
  then have i: "i < length items" by simp
  then have u: "[i..<length items] = i # [Suc i..<length items]"
    by (simp add: upt_conv_Cons)
  from i have d: "drop i items = items ! i # drop (Suc i) items"
    by (simp add: Cons_nth_drop_Suc)
  have m: "m = length items - Suc i" using Suc.hyps(2) by simp
  have l: "Suc i \<le> length items" using i by simp
  have inner: "detect_inner_st i [i + 1..<length items] report (items, ps)
         = (detect_inner ps (items ! i) (drop (Suc i) items) report, (items, ps))"
    using detect_inner_st_eq [OF i l, of report ps] by simp
  show ?case
  proof (cases "detect_inner ps (items ! i) (drop (Suc i) items) report")
    case (Inl e)
    then show ?thesis
      unfolding u d using inner by simp
  next
    case (Inr report')
    then show ?thesis
      unfolding u d using inner Suc.hyps(1) [OF m l, of report']
      by simp
  qed
qed

text \<open>
  Claim C8. \<^verbatim>\<open>detect_inconsistencies\<close> is read-only: whatever the list of elements and
  the price table are, and whether the call returns a report or raises, the store it
  leaves holds the same list, the same elements and the same table as before, and its
  outcome is the one of the function \<open>detect_inconsistencies\<close>.
\<close>

theorem detect_leaves_store:
  "detect_inconsistencies_st (items, ps) = (detect_inconsistencies items ps, (items, ps))"
proof -
  have "detect_outer_st [0..<length items] (length items) [] (items, ps)
        = (detect_outer ps items [], (items, ps))"
    using detect_outer_st_eq [of 0 items "[]" ps] by simp
  then show ?thesis
    by (cases "detect_outer ps items []") (simp_all add: detect_inconsistencies_st_def detect_inconsistencies_def)
qed

end
